theory Spec2Isabelle
  imports Main "HOL-Library.Log_Nat"
begin

section \<open>The load-test engine of app.py\<close>

text \<open>
  The development embeds the statistics engine of \<^verbatim>\<open>app.py\<close>: the class
  \<^verbatim>\<open>LoadTestResult\<close> with its derived-metric properties, the per-request
  update performed by \<^verbatim>\<open>simulate_user\<close>, the orchestration of
  \<^verbatim>\<open>run_load_test\<close>, the bounded history \<^verbatim>\<open>test_history\<close> and the
  aggregation of \<^verbatim>\<open>get_performance_metrics\<close>.
\<close>

subsection \<open>Python values and exceptions\<close>

text \<open>
  The exceptions that the arithmetic and the sequence operations of the engine can raise:
  \<^verbatim>\<open>/\<close> by zero, \<^verbatim>\<open>xs[i]\<close> out of range, \<^verbatim>\<open>min\<close> and \<^verbatim>\<open>max\<close> of
  an empty sequence. A computation that may raise returns \<open>Inl\<close> of the exception or
  \<open>Inr\<close> of its value.
\<close>

datatype py_error = ZeroDivisionError | IndexError | ValueError

definition py_bind :: "py_error + 'a \<Rightarrow> ('a \<Rightarrow> py_error + 'b) \<Rightarrow> py_error + 'b" where
  "py_bind m f = (case m of Inl e \<Rightarrow> Inl e | Inr x \<Rightarrow> f x)"

text \<open>\<^verbatim>\<open>xs[i]\<close> on a list: a negative index counts from the end.\<close>

definition py_index :: "'a list \<Rightarrow> int \<Rightarrow> py_error + 'a" where
  "py_index xs i =
     (if - int (length xs) \<le> i \<and> i < int (length xs)
      then Inr (xs ! nat (if 0 \<le> i then i else i + int (length xs)))
      else Inl IndexError)"

text \<open>\<^verbatim>\<open>min(xs)\<close> and \<^verbatim>\<open>max(xs)\<close>: a scan from the left that starts at the first item.\<close>

definition py_min :: "rat list \<Rightarrow> py_error + rat" where
  "py_min xs = (case xs of [] \<Rightarrow> Inl ValueError | y # ys \<Rightarrow> Inr (fold min ys y))"

definition py_max :: "rat list \<Rightarrow> py_error + rat" where
  "py_max xs = (case xs of [] \<Rightarrow> Inl ValueError | y # ys \<Rightarrow> Inr (fold max ys y))"

subsection \<open>Python floats\<close>

text \<open>
  A Python float is an IEEE 754 binary64 number. A finite one is the rational number it
  denotes; every arithmetic operation returns the exact result rounded to the nearest
  binary64 number, ties to the even significand. The exponent range is bounded below
  (gradual underflow, least exponent \<open>-1022\<close>) and left unbounded above: overflow to
  infinity is not modelled, so the model is the machine's as long as every value stays
  below \<open>2 ^ 1024\<close> in magnitude, as elapsed milliseconds, rates and counts do.

  \<open>ilog2 x\<close> is the binary exponent of a positive \<open>x\<close>: the \<open>e\<close> with
  \<open>2 ^ e \<le> x < 2 ^ (e + 1)\<close>, found from the bit lengths of numerator and denominator.
\<close>

definition ilog2 :: "rat \<Rightarrow> int" where
  "ilog2 x = (let (p, q) = quotient_of x; e = bitlen p - bitlen q
              in if 2 powi e \<le> x then e else e - 1)"

definition round_half_even :: "rat \<Rightarrow> int" where
  "round_half_even q =
     (let f = \<lfloor>q\<rfloor>; r = q - of_int f
      in if r < 1 / 2 then f else if 1 / 2 < r then f + 1 else if even f then f else f + 1)"

text \<open>The exponent of the unit in the last place of the 53-bit significand.\<close>

definition ulp_exponent :: "rat \<Rightarrow> int" where
  "ulp_exponent x = max (ilog2 \<bar>x\<bar>) (- 1022) - 52"

definition ulp :: "rat \<Rightarrow> rat" where
  "ulp x = 2 powi ulp_exponent x"

text \<open>Rounding to binary64.\<close>

definition fl :: "rat \<Rightarrow> rat" where
  "fl x = (if x = 0 then 0
           else of_int (round_half_even (x / 2 powi ulp_exponent x)) * 2 powi ulp_exponent x)"

definition is_double :: "rat \<Rightarrow> bool" where
  "is_double x \<longleftrightarrow> fl x = x \<and> \<bar>x\<bar> < 2 ^ 1024"

text \<open>
  The conversion of an \<^verbatim>\<open>int\<close> operand to \<^verbatim>\<open>float\<close>, the operations
  \<^verbatim>\<open>+\<close>, \<^verbatim>\<open>*\<close> and \<^verbatim>\<open>/\<close> on floats, the true division of two
  \<^verbatim>\<open>int\<close>s (correctly rounded), and \<^verbatim>\<open>int(x)\<close>, which truncates towards zero.
\<close>

definition float_of_int :: "int \<Rightarrow> rat" where
  "float_of_int n = fl (of_int n)"

definition float_add :: "rat \<Rightarrow> rat \<Rightarrow> rat" where
  "float_add a b = fl (a + b)"

definition float_mul :: "rat \<Rightarrow> rat \<Rightarrow> rat" where
  "float_mul a b = fl (a * b)"

definition float_truediv :: "rat \<Rightarrow> rat \<Rightarrow> py_error + rat" where
  "float_truediv a b = (if b = 0 then Inl ZeroDivisionError else Inr (fl (a / b)))"

definition int_truediv :: "int \<Rightarrow> int \<Rightarrow> py_error + rat" where
  "int_truediv a b =
     (if b = 0 then Inl ZeroDivisionError else Inr (fl (of_int a / of_int b)))"

definition int_of_float :: "rat \<Rightarrow> int" where
  "int_of_float x = (if 0 \<le> x then \<lfloor>x\<rfloor> else \<lceil>x\<rceil>)"

text \<open>
  \<^verbatim>\<open>sum(xs)\<close> on floats: the items are added from left to right to the start value
  \<open>0\<close>, each addition rounded.
\<close>

definition py_sum :: "rat list \<Rightarrow> rat" where
  "py_sum xs = foldl float_add 0 xs"

text \<open>
  Since CPython 3.12 \<^verbatim>\<open>sum\<close> carries a compensation term for the low-order bits
  lost by each addition (Neumaier's variant of Kahan summation) and adds it at the end.
  The metrics below are defined with \<open>py_sum\<close>; the two summations agree whenever no
  addition rounds, and on the inputs evaluated in this theory.
\<close>

fun neumaier :: "rat \<times> rat \<Rightarrow> rat list \<Rightarrow> rat \<times> rat" where
  "neumaier (f_result, c) [] = (f_result, c)"
| "neumaier (f_result, c) (x # xs) =
     (let t = float_add f_result x;
          c = (if \<bar>x\<bar> \<le> \<bar>f_result\<bar>
               then float_add c (float_add (float_add f_result (- t)) x)
               else float_add c (float_add (float_add x (- t)) f_result))
      in neumaier (t, c) xs)"

definition py_sum_compensated :: "rat list \<Rightarrow> rat" where
  "py_sum_compensated xs =
     (let (f_result, c) = neumaier (0, 0) xs
      in if c \<noteq> 0 then float_add f_result c else f_result)"

text \<open>
  No addition performed by \<^verbatim>\<open>sum\<close> rounds or overflows: starting from \<open>acc\<close>,
  every partial sum is a double.
\<close>

fun exact_sum :: "rat \<Rightarrow> rat list \<Rightarrow> bool" where
  "exact_sum acc [] = True"
| "exact_sum acc (x # xs) = (is_double (acc + x) \<and> exact_sum (acc + x) xs)"

subsection \<open>Run Result\<close>

text \<open>
  \<^verbatim>\<open>LoadTestResult.__init__\<close>: three integer counters, the list of latencies
  (Python floats, here the rational numbers they denote), two optional timestamps
  (\<^verbatim>\<open>datetime\<close> values, here microseconds on the clock, \<open>None\<close> as in the source)
  and the two request parameters.
\<close>

record LoadTestResult =
  total_requests :: int
  successful_requests :: int
  failed_requests :: int
  response_times :: "rat list"
  start_time :: "int option"
  end_time :: "int option"
  concurrent_users :: int
  test_duration :: int

definition new_LoadTestResult :: LoadTestResult where
  "new_LoadTestResult =
     \<lparr>total_requests = 0, successful_requests = 0, failed_requests = 0,
      response_times = [], start_time = None, end_time = None,
      concurrent_users = 0, test_duration = 0\<rparr>"

text \<open>\<^verbatim>\<open>avg_response_time\<close>, \<^verbatim>\<open>min_response_time\<close>, \<^verbatim>\<open>max_response_time\<close>, lines 50--60.\<close>

definition avg_response_time :: "LoadTestResult \<Rightarrow> py_error + rat" where
  "avg_response_time self =
     (if response_times self \<noteq> []
      then float_truediv (py_sum (response_times self))
             (float_of_int (int (length (response_times self))))
      else Inr 0)"

definition min_response_time :: "LoadTestResult \<Rightarrow> py_error + rat" where
  "min_response_time self =
     (if response_times self \<noteq> [] then py_min (response_times self) else Inr 0)"

definition max_response_time :: "LoadTestResult \<Rightarrow> py_error + rat" where
  "max_response_time self =
     (if response_times self \<noteq> [] then py_max (response_times self) else Inr 0)"

text \<open>
  The index expression of both percentile properties, \<^verbatim>\<open>int(len(sorted_times) * p)\<close>,
  for a list of \<open>count\<close> items and the float \<open>p\<close>.
\<close>

definition percentile_index :: "nat \<Rightarrow> rat \<Rightarrow> int" where
  "percentile_index count p = int_of_float (float_mul (float_of_int (int count)) p)"

text \<open>
  \<^verbatim>\<open>p95_response_time\<close> and \<^verbatim>\<open>p99_response_time\<close>, lines 62--76. The literals
  \<^verbatim>\<open>0.95\<close> and \<^verbatim>\<open>0.99\<close> denote the doubles nearest to 95/100 and 99/100.
\<close>

definition p95_response_time :: "LoadTestResult \<Rightarrow> py_error + rat" where
  "p95_response_time self =
     (if response_times self = [] then Inr 0
      else let sorted_times = sort (response_times self);
               index = int_of_float
                 (float_mul (float_of_int (int (length sorted_times))) (fl (95 / 100)))
           in py_index sorted_times index)"

definition p99_response_time :: "LoadTestResult \<Rightarrow> py_error + rat" where
  "p99_response_time self =
     (if response_times self = [] then Inr 0
      else let sorted_times = sort (response_times self);
               index = int_of_float
                 (float_mul (float_of_int (int (length sorted_times))) (fl (99 / 100)))
           in py_index sorted_times index)"

text \<open>\<^verbatim>\<open>success_rate\<close>, lines 78--80.\<close>

definition success_rate :: "LoadTestResult \<Rightarrow> py_error + rat" where
  "success_rate self =
     (if 0 < total_requests self
      then py_bind (int_truediv (successful_requests self) (total_requests self))
             (\<lambda>q. Inr (float_mul q (float_of_int 100)))
      else Inr 0)"

text \<open>
  \<^verbatim>\<open>timedelta.total_seconds()\<close>: the microseconds of the difference divided by
  \<open>10 ^ 6\<close>, as a float.
\<close>

definition total_seconds :: "int \<Rightarrow> rat" where
  "total_seconds microseconds = fl (of_int microseconds / 10 ^ 6)"

text \<open>\<^verbatim>\<open>requests_per_second\<close>, lines 82--87.\<close>

definition requests_per_second :: "LoadTestResult \<Rightarrow> py_error + rat" where
  "requests_per_second self =
     (case (start_time self, end_time self) of
        (Some start, Some end) \<Rightarrow>
          if total_requests self = 0 then Inr 0
          else let duration = total_seconds (end - start)
               in if 0 < duration
                  then float_truediv (float_of_int (total_requests self)) duration
                  else Inr 0
      | _ \<Rightarrow> Inr 0)"

text \<open>
  \<^verbatim>\<open>to_dict\<close>, lines 32--48: the dictionary, with one field for each key; the values
  are computed in the order of the keys and the first exception raised is the result.
\<close>

record snapshot =
  snap_total_requests :: int
  snap_successful_requests :: int
  snap_failed_requests :: int
  snap_avg_response_time :: rat
  snap_min_response_time :: rat
  snap_max_response_time :: rat
  snap_p95_response_time :: rat
  snap_p99_response_time :: rat
  snap_start_time :: "int option"
  snap_end_time :: "int option"
  snap_concurrent_users :: int
  snap_test_duration :: int
  snap_success_rate :: rat
  snap_requests_per_second :: rat

definition to_dict :: "LoadTestResult \<Rightarrow> py_error + snapshot" where
  "to_dict self =
     py_bind (avg_response_time self) (\<lambda>avg.
     py_bind (min_response_time self) (\<lambda>mn.
     py_bind (max_response_time self) (\<lambda>mx.
     py_bind (p95_response_time self) (\<lambda>p95.
     py_bind (p99_response_time self) (\<lambda>p99.
     py_bind (success_rate self) (\<lambda>rate.
     py_bind (requests_per_second self) (\<lambda>rps.
       Inr \<lparr>snap_total_requests = total_requests self,
            snap_successful_requests = successful_requests self,
            snap_failed_requests = failed_requests self,
            snap_avg_response_time = avg,
            snap_min_response_time = mn,
            snap_max_response_time = mx,
            snap_p95_response_time = p95,
            snap_p99_response_time = p99,
            snap_start_time = start_time self,
            snap_end_time = end_time self,
            snap_concurrent_users = concurrent_users self,
            snap_test_duration = test_duration self,
            snap_success_rate = rate,
            snap_requests_per_second = rps\<rparr>)))))))"

subsection \<open>Virtual user\<close>

text \<open>
  What \<^verbatim>\<open>requests.post\<close> did for one virtual user: it returned a response with a
  status code, raised \<^verbatim>\<open>requests.exceptions.Timeout\<close>, or raised any other
  exception.
\<close>

datatype http_outcome = Response int | Timeout | OtherException

text \<open>
  \<^verbatim>\<open>simulate_user\<close>, lines 145--192. The outcome of the request and the measured
  \<^verbatim>\<open>response_time_ms\<close> come from the environment; the function is the body of the
  \<^verbatim>\<open>with lock:\<close> block of the branch taken, applied to the shared result.
\<close>

fun simulate_user :: "http_outcome \<Rightarrow> rat \<Rightarrow> LoadTestResult \<Rightarrow> LoadTestResult" where
  "simulate_user (Response status_code) response_time_ms result =
     (let result = result\<lparr>total_requests := total_requests result + 1\<rparr>;
          result = (if status_code = 200
                    then result\<lparr>successful_requests := successful_requests result + 1\<rparr>
                    else result\<lparr>failed_requests := failed_requests result + 1\<rparr>)
      in result\<lparr>response_times := response_times result @ [response_time_ms]\<rparr>)"
| "simulate_user Timeout response_time_ms result =
     (let result = result\<lparr>total_requests := total_requests result + 1\<rparr>;
          result = result\<lparr>failed_requests := failed_requests result + 1\<rparr>
      in result\<lparr>response_times := response_times result @ [response_time_ms]\<rparr>)"
| "simulate_user OtherException response_time_ms result =
     (let result = result\<lparr>total_requests := total_requests result + 1\<rparr>;
          result = result\<lparr>failed_requests := failed_requests result + 1\<rparr>
      in result\<lparr>response_times := response_times result @ [response_time_ms]\<rparr>)"

text \<open>
  The run results that the updates can produce: \<^verbatim>\<open>run_load_test\<close> creates the
  object, sets the start time and the two parameters, the virtual users update it under
  the lock, and the end time is set last.
\<close>

inductive reachable :: "LoadTestResult \<Rightarrow> bool" where
  created: "reachable (new_LoadTestResult\<lparr>start_time := Some t, concurrent_users := users,
                                             test_duration := duration\<rparr>)"
| updated: "reachable r \<Longrightarrow> reachable (simulate_user outcome ms r)"
| finalized: "reachable r \<Longrightarrow> reachable (r\<lparr>end_time := Some t\<rparr>)"

text \<open>
  The three statements of the \<^verbatim>\<open>with lock:\<close> block, lines 169--174 (and their
  copies in the two exception handlers), one by one.
\<close>

definition add_total :: "LoadTestResult \<Rightarrow> LoadTestResult" where
  "add_total result = result\<lparr>total_requests := total_requests result + 1\<rparr>"

fun add_outcome :: "http_outcome \<Rightarrow> LoadTestResult \<Rightarrow> LoadTestResult" where
  "add_outcome (Response status_code) result =
     (if status_code = 200
      then result\<lparr>successful_requests := successful_requests result + 1\<rparr>
      else result\<lparr>failed_requests := failed_requests result + 1\<rparr>)"
| "add_outcome Timeout result = result\<lparr>failed_requests := failed_requests result + 1\<rparr>"
| "add_outcome OtherException result =
     result\<lparr>failed_requests := failed_requests result + 1\<rparr>"

definition add_latency :: "rat \<Rightarrow> LoadTestResult \<Rightarrow> LoadTestResult" where
  "add_latency response_time_ms result =
     result\<lparr>response_times := response_times result @ [response_time_ms]\<rparr>"

text \<open>
  The virtual users as concurrent threads. A thread is waiting for its request, or it
  holds the lock and stands before one of the three statements of the block, or it has
  left the block and released the lock. \<open>requests ! i\<close> is the outcome and the latency
  of the request of thread \<open>i\<close>. A step of a thread is one statement; entering the
  block needs the lock to be free, and the last statement is followed by the release.
\<close>

datatype position = Requesting | At_total | At_outcome | At_append | Finished

text \<open>
  The main thread of \<^verbatim>\<open>run_load_test\<close>, lines 204--221. It joins the threads in
  the order of their start, each join with a timeout: the join of thread \<open>k\<close> returns
  when the thread has finished, or when the time is over and the thread has not. After
  the last join it sets the end time and \<^verbatim>\<open>to_dict\<close> reads the counters, one field
  after the other, all without taking the lock. \<open>Read_derived\<close> is the position after
  the three counters, where the derived metrics are computed.
\<close>

datatype main_position =
  Joining nat | Read_total | Read_successful | Read_failed | Read_derived

record run_state =
  shared :: LoadTestResult
  lock_holder :: "nat option"
  threads :: "position list"
  main_thread :: main_position
  timed_out :: bool
  dict_total :: int
  dict_successful :: int
  dict_failed :: int

inductive thread_step :: "(http_outcome \<times> rat) list \<Rightarrow> run_state \<Rightarrow> run_state \<Rightarrow> bool"
  for requests :: "(http_outcome \<times> rat) list" where
  acquire:
    "i < length (threads s) \<Longrightarrow> threads s ! i = Requesting \<Longrightarrow> lock_holder s = None \<Longrightarrow>
     thread_step requests s
       (s\<lparr>lock_holder := Some i, threads := (threads s)[i := At_total]\<rparr>)"
| total:
    "i < length (threads s) \<Longrightarrow> threads s ! i = At_total \<Longrightarrow>
     thread_step requests s
       (s\<lparr>shared := add_total (shared s), threads := (threads s)[i := At_outcome]\<rparr>)"
| outcome:
    "i < length (threads s) \<Longrightarrow> threads s ! i = At_outcome \<Longrightarrow>
     thread_step requests s
       (s\<lparr>shared := add_outcome (fst (requests ! i)) (shared s),
          threads := (threads s)[i := At_append]\<rparr>)"
| append_release:
    "i < length (threads s) \<Longrightarrow> threads s ! i = At_append \<Longrightarrow>
     thread_step requests s
       (s\<lparr>shared := add_latency (snd (requests ! i)) (shared s), lock_holder := None,
          threads := (threads s)[i := Finished]\<rparr>)"

inductive main_step :: "run_state \<Rightarrow> run_state \<Rightarrow> bool" where
  join_finished:
    "main_thread s = Joining k \<Longrightarrow> k < length (threads s) \<Longrightarrow> threads s ! k = Finished \<Longrightarrow>
     main_step s (s\<lparr>main_thread := Joining (k + 1)\<rparr>)"
| join_timeout:
    "main_thread s = Joining k \<Longrightarrow> k < length (threads s) \<Longrightarrow> threads s ! k \<noteq> Finished \<Longrightarrow>
     main_step s (s\<lparr>main_thread := Joining (k + 1), timed_out := True\<rparr>)"
| set_end_time:
    "main_thread s = Joining k \<Longrightarrow> k = length (threads s) \<Longrightarrow>
     main_step s (s\<lparr>shared := (shared s)\<lparr>end_time := Some t\<rparr>, main_thread := Read_total\<rparr>)"
| read_total:
    "main_thread s = Read_total \<Longrightarrow>
     main_step s (s\<lparr>dict_total := total_requests (shared s),
                    main_thread := Read_successful\<rparr>)"
| read_successful:
    "main_thread s = Read_successful \<Longrightarrow>
     main_step s (s\<lparr>dict_successful := successful_requests (shared s),
                    main_thread := Read_failed\<rparr>)"
| read_failed:
    "main_thread s = Read_failed \<Longrightarrow>
     main_step s (s\<lparr>dict_failed := failed_requests (shared s),
                    main_thread := Read_derived\<rparr>)"

text \<open>
  The states of one run: the threads and the main thread take their steps in any order.
\<close>

inductive run_reachable :: "(http_outcome \<times> rat) list \<Rightarrow> run_state \<Rightarrow> bool"
  for requests :: "(http_outcome \<times> rat) list" where
  started:
    "run_reachable requests
       \<lparr>shared = new_LoadTestResult\<lparr>start_time := Some t, concurrent_users := users,
                   test_duration := duration\<rparr>,
        lock_holder = None, threads = replicate (length requests) Requesting,
        main_thread = Joining 0, timed_out = False,
        dict_total = 0, dict_successful = 0, dict_failed = 0\<rparr>"
| stepped:
    "run_reachable requests s \<Longrightarrow> thread_step requests s s' \<Longrightarrow> run_reachable requests s'"
| main_stepped:
    "run_reachable requests s \<Longrightarrow> main_step s s' \<Longrightarrow> run_reachable requests s'"

text \<open>
  The invariant of the threads: a thread is inside the block exactly when it holds the
  lock, and the counters are the number of finished threads plus what the thread inside
  the block has already added.
\<close>

definition in_block :: "position \<Rightarrow> bool" where
  "in_block p \<longleftrightarrow> p = At_total \<or> p = At_outcome \<or> p = At_append"

definition finished_count :: "position list \<Rightarrow> int" where
  "finished_count ps = (\<Sum>p\<leftarrow>ps. if p = Finished then 1 else 0)"

text \<open>
  What the thread at a position has already added to \<open>total_requests\<close>, to
  \<open>successful_requests + failed_requests\<close> and to the latencies.
\<close>

fun ahead :: "position \<Rightarrow> int \<times> int \<times> int" where
  "ahead At_outcome = (1, 0, 0)"
| "ahead At_append = (1, 1, 0)"
| "ahead _ = (0, 0, 0)"

definition run_invariant :: "run_state \<Rightarrow> bool" where
  "run_invariant s \<longleftrightarrow>
     (\<forall>i < length (threads s). in_block (threads s ! i) \<longleftrightarrow> lock_holder s = Some i) \<and>
     (case lock_holder s of None \<Rightarrow> True | Some i \<Rightarrow> i < length (threads s)) \<and>
     (let (a, b, c) = (case lock_holder s of None \<Rightarrow> (0, 0, 0)
                        | Some i \<Rightarrow> ahead (threads s ! i));
          k = finished_count (threads s)
      in total_requests (shared s) = k + a \<and>
         successful_requests (shared s) + failed_requests (shared s) = k + b \<and>
         int (length (response_times (shared s))) = k + c)"

text \<open>
  The invariant of the main thread while no join has timed out: the threads joined so
  far have finished, after the last join all have, and each counter read by
  \<^verbatim>\<open>to_dict\<close> is still the counter of the result.
\<close>

definition all_finished :: "position list \<Rightarrow> bool" where
  "all_finished ps \<longleftrightarrow> (\<forall>i < length ps. ps ! i = Finished)"

definition joined_invariant :: "(http_outcome \<times> rat) list \<Rightarrow> run_state \<Rightarrow> bool" where
  "joined_invariant requests s \<longleftrightarrow>
     length (threads s) = length requests \<and>
     (\<not> timed_out s \<longrightarrow>
        (case main_thread s of
           Joining k \<Rightarrow> k \<le> length (threads s) \<and> (\<forall>i < k. threads s ! i = Finished)
         | Read_total \<Rightarrow> all_finished (threads s) \<and> end_time (shared s) \<noteq> None
         | Read_successful \<Rightarrow>
             all_finished (threads s) \<and> end_time (shared s) \<noteq> None \<and>
             dict_total s = total_requests (shared s)
         | Read_failed \<Rightarrow>
             all_finished (threads s) \<and> end_time (shared s) \<noteq> None \<and>
             dict_total s = total_requests (shared s) \<and>
             dict_successful s = successful_requests (shared s)
         | Read_derived \<Rightarrow>
             all_finished (threads s) \<and> end_time (shared s) \<noteq> None \<and>
             dict_total s = total_requests (shared s) \<and>
             dict_successful s = successful_requests (shared s) \<and>
             dict_failed s = failed_requests (shared s)))"

subsection \<open>Test history\<close>

text \<open>
  \<^verbatim>\<open>collections.deque(maxlen=n).append(x)\<close>: the item is added on the right, and
  when the deque is then longer than \<open>maxlen\<close> one item is discarded on the left.
\<close>

definition deque_append :: "nat \<Rightarrow> 'a list \<Rightarrow> 'a \<Rightarrow> 'a list" where
  "deque_append maxlen d x =
     (let d' = d @ [x] in if maxlen < length d' then tl d' else d')"

text \<open>\<^verbatim>\<open>test_history = deque(maxlen=50)\<close>, line 19, and its \<^verbatim>\<open>append\<close>, line 215.\<close>

definition history_maxlen :: nat where
  "history_maxlen = 50"

definition history_append :: "'a list \<Rightarrow> 'a \<Rightarrow> 'a list" where
  "history_append test_history x = deque_append history_maxlen test_history x"

text \<open>Appending a sequence of results one after the other, starting from a given history.\<close>

definition history_append_all :: "'a list \<Rightarrow> 'a list \<Rightarrow> 'a list" where
  "history_append_all test_history xs = foldl history_append test_history xs"

subsection \<open>Test runner\<close>

text \<open>
  \<^verbatim>\<open>run_load_test\<close>, lines 129--221. The request body gives \<open>users\<close> and
  \<open>duration\<close>, each possibly absent; \<open>now_start\<close> and \<open>now_end\<close> are the two
  readings of \<^verbatim>\<open>datetime.now()\<close>. One thread is started for each \<open>i\<close> of
  \<^verbatim>\<open>range(users)\<close>, with user id \<open>i + 1\<close>; \<open>completed\<close> gives, for a user id,
  the outcome and latency of its request if its update reached the result before the end
  time was set, and \<open>None\<close> if the join timed out first. The updates are applied in the
  order of the launches. The function returns the response and the new history.
\<close>

definition run_load_test ::
  "int option \<Rightarrow> int option \<Rightarrow> int \<Rightarrow> int \<Rightarrow> (nat \<Rightarrow> (http_outcome \<times> rat) option) \<Rightarrow>
     snapshot list \<Rightarrow> py_error + snapshot \<times> snapshot list" where
  "run_load_test users_field duration_field now_start now_end completed test_history =
     (let users = (case users_field of None \<Rightarrow> 10 | Some u \<Rightarrow> u);
          duration = (case duration_field of None \<Rightarrow> 30 | Some d \<Rightarrow> d);
          result = new_LoadTestResult;
          result = result\<lparr>start_time := Some now_start\<rparr>;
          result = result\<lparr>concurrent_users := users\<rparr>;
          result = result\<lparr>test_duration := duration\<rparr>;
          result = fold (\<lambda>i result.
                      case completed (i + 1) of
                        None \<Rightarrow> result
                      | Some (outcome, ms) \<Rightarrow> simulate_user outcome ms result)
                     [0 ..< nat users] result;
          result = result\<lparr>end_time := Some now_end\<rparr>
      in py_bind (to_dict result) (\<lambda>stored.
         py_bind (to_dict result) (\<lambda>returned.
           Inr (returned, history_append test_history stored))))"

text \<open>
  The snapshot of a run without requests: the counters and every derived metric are 0.
\<close>

definition empty_snapshot :: "int \<Rightarrow> int \<Rightarrow> int \<Rightarrow> int \<Rightarrow> snapshot" where
  "empty_snapshot users duration now_start now_end =
     \<lparr>snap_total_requests = 0, snap_successful_requests = 0, snap_failed_requests = 0,
      snap_avg_response_time = 0, snap_min_response_time = 0, snap_max_response_time = 0,
      snap_p95_response_time = 0, snap_p99_response_time = 0,
      snap_start_time = Some now_start, snap_end_time = Some now_end,
      snap_concurrent_users = users, snap_test_duration = duration,
      snap_success_rate = 0, snap_requests_per_second = 0\<rparr>"

subsection \<open>Aggregate metrics\<close>

text \<open>
  \<^verbatim>\<open>get_performance_metrics\<close>, lines 228--245: \<open>None\<close> is the empty dictionary
  returned for an empty history.
\<close>

record metrics =
  m_total_tests :: int
  m_avg_success_rate :: rat
  m_avg_response_time :: rat
  m_avg_throughput :: rat
  m_total_requests :: int
  m_total_successful :: int
  m_total_failed :: int

definition get_performance_metrics :: "snapshot list \<Rightarrow> py_error + metrics option" where
  "get_performance_metrics test_history =
     (if test_history = [] then Inr None
      else
        py_bind (float_truediv (py_sum (map snap_success_rate test_history))
                   (float_of_int (int (length test_history)))) (\<lambda>rate.
        py_bind (float_truediv (py_sum (map snap_avg_response_time test_history))
                   (float_of_int (int (length test_history)))) (\<lambda>avg.
        py_bind (float_truediv (py_sum (map snap_requests_per_second test_history))
                   (float_of_int (int (length test_history)))) (\<lambda>throughput.
          Inr (Some \<lparr>m_total_tests = int (length test_history),
                     m_avg_success_rate = rate,
                     m_avg_response_time = avg,
                     m_avg_throughput = throughput,
                     m_total_requests = sum_list (map snap_total_requests test_history),
                     m_total_successful =
                       sum_list (map snap_successful_requests test_history),
                     m_total_failed = sum_list (map snap_failed_requests test_history)\<rparr>)))))"

section \<open>Properties\<close>

subsection \<open>Rounding to binary64\<close>

lemma pow2_less_iff: "(2::rat) powi m < 2 powi n \<longleftrightarrow> m < n"
proof
  assume "(2::rat) powi m < 2 powi n"
  show "m < n"
  proof (rule ccontr)
    assume "\<not> m < n"
    then have "(2::rat) powi n \<le> 2 powi m"
      by (intro power_int_increasing) simp_all
    with \<open>(2::rat) powi m < 2 powi n\<close> show False by simp
  qed
next
  assume "m < n"
  then show "(2::rat) powi m < 2 powi n"
    by (intro power_int_strict_increasing) simp_all
qed

lemma pow2_le_iff: "(2::rat) powi m \<le> 2 powi n \<longleftrightarrow> m \<le> n"
  using pow2_less_iff [of n m] by (simp add: not_less [symmetric])

lemma bitlen_bounds_rat:
  assumes "0 < p"
  shows "2 powi (bitlen p - 1) \<le> (of_int p :: rat)" "(of_int p :: rat) < 2 powi bitlen p"
proof -
  have b: "2 ^ nat (bitlen p - 1) \<le> p" "p < 2 ^ nat (bitlen p)"
    using bitlen_bounds [OF assms] by simp_all
  have pos: "1 \<le> bitlen p"
    using assms bitlen_nonneg [of p] bitlen_eq_zero_iff [of p] by linarith
  have "(of_int (2 ^ nat (bitlen p - 1)) :: rat) \<le> of_int p"
    using b(1) by (simp only: of_int_le_iff)
  then show "2 powi (bitlen p - 1) \<le> (of_int p :: rat)"
    using pos by (simp add: power_int_nonneg_exp)
  have "(of_int p :: rat) < of_int (2 ^ nat (bitlen p))"
    using b(2) by (simp only: of_int_less_iff)
  then show "(of_int p :: rat) < 2 powi bitlen p"
    using pos by (simp add: power_int_nonneg_exp)
qed

lemma ilog2_bounds:
  assumes "0 < x"
  shows "2 powi ilog2 x \<le> x \<and> x < 2 powi (ilog2 x + 1)"
proof -
  obtain p q where pq: "quotient_of x = (p, q)"
    by (cases "quotient_of x")
  have q: "0 < q" using pq quotient_of_denom_pos by blast
  have x: "x = of_int p / of_int q" using pq by (rule quotient_of_div)
  have p: "0 < p" using assms q by (simp add: x zero_less_divide_iff)
  define e where "e = bitlen p - bitlen q"
  note bp = bitlen_bounds_rat [OF p]
  note bq = bitlen_bounds_rat [OF q]
  have q': "(0::rat) < of_int q" using q by simp
  have "x < 2 powi bitlen p / 2 powi (bitlen q - 1)"
    unfolding x using p bp(2) bq(1) by (intro frac_less) simp_all
  also have "\<dots> = 2 powi (e + 1)"
    by (simp add: e_def power_int_diff [symmetric] algebra_simps)
  finally have up: "x < 2 powi (e + 1)" .
  have "2 powi (e - 1) = (2::rat) powi (bitlen p - 1) / 2 powi bitlen q"
    by (simp add: e_def power_int_diff [symmetric] algebra_simps)
  also have "\<dots> \<le> x"
    unfolding x using p bp(1) bq(2) q' by (intro frac_le) simp_all
  finally have lo: "2 powi (e - 1) \<le> x" .
  have il: "ilog2 x = (if 2 powi e \<le> x then e else e - 1)"
    by (simp add: ilog2_def pq e_def Let_def)
  show ?thesis
    using up lo by (auto simp: il)
qed

lemma ilog2_unique:
  assumes "2 powi e \<le> x" "x < 2 powi (e + 1)"
  shows "ilog2 x = e"
proof -
  have pos: "0 < x"
    using assms(1) by (rule less_le_trans [rotated]) simp
  note b = ilog2_bounds [OF pos]
  have "(2::rat) powi e < 2 powi (ilog2 x + 1)"
    using assms(1) b by linarith
  then have 1: "e < ilog2 x + 1"
    by (simp add: pow2_less_iff)
  have "(2::rat) powi ilog2 x < 2 powi (e + 1)"
    using assms(2) b by linarith
  then have 2: "ilog2 x < e + 1"
    by (simp add: pow2_less_iff)
  from 1 2 show ?thesis by linarith
qed

lemma ilog2_mono:
  assumes "0 < x" "x \<le> y"
  shows "ilog2 x \<le> ilog2 y"
proof -
  have "(2::rat) powi ilog2 x < 2 powi (ilog2 y + 1)"
    using ilog2_bounds [of x] ilog2_bounds [of y] assms by linarith
  then show ?thesis
    by (simp add: pow2_less_iff)
qed

lemma round_half_even_error: "\<bar>of_int (round_half_even q) - q\<bar> \<le> 1 / 2"
proof -
  have "of_int \<lfloor>q\<rfloor> \<le> q" "q < of_int \<lfloor>q\<rfloor> + 1"
    by linarith+
  then show ?thesis
    by (auto simp: round_half_even_def Let_def)
qed

lemma round_half_even_of_int [simp]: "round_half_even (of_int k) = k"
  by (simp add: round_half_even_def)

lemma round_half_even_mono:
  assumes "q1 \<le> q2"
  shows "round_half_even q1 \<le> round_half_even q2"
proof -
  have f: "\<lfloor>q1\<rfloor> \<le> \<lfloor>q2\<rfloor>"
    using assms by (rule floor_mono)
  show ?thesis
  proof (cases "\<lfloor>q1\<rfloor> = \<lfloor>q2\<rfloor>")
    case True
    with assms show ?thesis
      by (auto simp: round_half_even_def Let_def)
  next
    case False
    with f have "\<lfloor>q1\<rfloor> + 1 \<le> \<lfloor>q2\<rfloor>" by simp
    moreover have "round_half_even q1 \<le> \<lfloor>q1\<rfloor> + 1"
      by (simp add: round_half_even_def Let_def)
    moreover have "\<lfloor>q2\<rfloor> \<le> round_half_even q2"
      by (simp add: round_half_even_def Let_def)
    ultimately show ?thesis by linarith
  qed
qed

lemma round_half_even_near:
  assumes "\<bar>q - of_int k\<bar> < 1 / 2"
  shows "round_half_even q = k"
proof -
  have "\<bar>(of_int (round_half_even q) :: rat) - of_int k\<bar> < 1"
    using round_half_even_error [of q] assms by linarith
  then have "\<bar>round_half_even q - k\<bar> < 1"
    by (metis of_int_diff of_int_abs of_int_less_iff of_int_1)
  then show ?thesis by linarith
qed

lemma round_half_even_minus: "round_half_even (- q) = - round_half_even q"
proof (cases "q = of_int \<lfloor>q\<rfloor>")
  case True
  then obtain k where "q = of_int k" ..
  then show ?thesis
    by (simp add: of_int_minus [symmetric] del: of_int_minus)
next
  case False
  then have fl: "\<lfloor>- q\<rfloor> = - \<lfloor>q\<rfloor> - 1"
    by (metis ceiling_altdef ceiling_def add_diff_cancel_right' minus_diff_eq diff_minus_eq_add  uminus_add_conv_diff)
  have "of_int \<lfloor>q\<rfloor> \<le> q" "q < of_int \<lfloor>q\<rfloor> + 1"
    by linarith+
  with False fl show ?thesis
    by (auto simp: round_half_even_def Let_def)
qed

lemma ulp_pos [simp]: "0 < ulp x"
  by (simp add: ulp_def)

lemma ulp_nonzero [simp]: "ulp x \<noteq> 0"
  by (simp add: ulp_def)

lemma ulp_nonneg [simp]: "0 \<le> ulp x"
  by (simp add: ulp_def)

lemma fl_ulp: "x \<noteq> 0 \<Longrightarrow> fl x = of_int (round_half_even (x / ulp x)) * ulp x"
  by (simp add: fl_def ulp_def)

lemma fl_zero [simp]: "fl 0 = 0"
  by (simp add: fl_def)

lemma ulp_exponent_minus [simp]: "ulp_exponent (- x) = ulp_exponent x"
  by (simp add: ulp_exponent_def)

lemma fl_minus: "fl (- x) = - fl x"
  by (simp add: fl_def round_half_even_minus)

lemma fl_error:
  assumes "x \<noteq> 0"
  shows "\<bar>fl x - x\<bar> \<le> ulp x / 2"
proof -
  have "fl x - x = (of_int (round_half_even (x / ulp x)) - x / ulp x) * ulp x"
    using assms by (simp add: fl_ulp algebra_simps)
  then have "\<bar>fl x - x\<bar> = \<bar>of_int (round_half_even (x / ulp x)) - x / ulp x\<bar> * ulp x"
    by (simp add: abs_mult)
  also have "\<dots> \<le> 1 / 2 * ulp x"
    by (intro mult_right_mono round_half_even_error) simp
  finally show ?thesis by simp
qed

lemma fl_grid:
  assumes "x \<noteq> 0" "\<bar>x - of_int k * ulp x\<bar> < ulp x / 2"
  shows "fl x = of_int k * ulp x"
proof -
  have "x / ulp x - of_int k = (x - of_int k * ulp x) / ulp x"
    by (simp add: diff_divide_distrib)
  then have "\<bar>x / ulp x - of_int k\<bar> = \<bar>x - of_int k * ulp x\<bar> / ulp x"
    by simp
  also have "\<dots> < 1 / 2"
    using assms(2) by (simp add: divide_less_eq)
  finally have "round_half_even (x / ulp x) = k"
    by (rule round_half_even_near)
  then show ?thesis
    using assms(1) by (simp add: fl_ulp)
qed

lemma fl_exact:
  assumes "x \<noteq> 0" "x = of_int k * ulp x"
  shows "fl x = x"
  using fl_grid [of x k] assms by simp

lemma round_half_even_zero [simp]: "round_half_even 0 = 0"
  using round_half_even_of_int [of 0] by simp

lemma fl_nonneg: "0 \<le> x \<Longrightarrow> 0 \<le> fl x"
proof (cases "x = 0")
  case False
  assume "0 \<le> x"
  then have "(of_int 0 :: rat) \<le> x / ulp x" by simp
  then have "round_half_even (of_int 0) \<le> round_half_even (x / ulp x)"
    by (rule round_half_even_mono)
  then show ?thesis
    using False by (simp add: fl_ulp)
qed simp

lemma fl_mono_pos:
  assumes "0 < x" "x \<le> y"
  shows "fl x \<le> fl y"
proof -
  have y: "0 < y" using assms by simp
  define ex where "ex = max (ilog2 x) (- 1022)"
  define ey where "ey = max (ilog2 y) (- 1022)"
  have ux: "ulp x = 2 powi (ex - 52)" and uy: "ulp y = 2 powi (ey - 52)"
    using assms y by (simp_all add: ulp_def ulp_exponent_def ex_def ey_def)
  have exy: "ex \<le> ey"
    using ilog2_mono [OF assms] by (simp add: ex_def ey_def)
  show ?thesis
  proof (cases "ex = ey")
    case True
    then have u: "ulp x = ulp y" by (simp add: ux uy)
    have "x / ulp y \<le> y / ulp y"
      using assms(2) by (simp add: divide_right_mono)
    then have "round_half_even (x / ulp y) \<le> round_half_even (y / ulp y)"
      by (rule round_half_even_mono)
    then show ?thesis
      using assms y by (simp add: fl_ulp u)
  next
    case False
    with exy have lt: "ex + 1 \<le> ey" by simp
    then have ey': "ey = ilog2 y"
      by (auto simp: ex_def ey_def max_def split: if_splits)
    have "x < 2 powi (ilog2 x + 1)"
      using ilog2_bounds [OF assms(1)] by simp
    also have "\<dots> \<le> 2 powi (ex + 1)"
      by (simp add: pow2_le_iff ex_def)
    also have "\<dots> = of_int (2 ^ 53) * ulp x"
      by (simp add: ux power_int_diff power_int_add)
    finally have "x / ulp x \<le> of_int (2 ^ 53)"
      by (simp add: divide_le_eq)
    then have "round_half_even (x / ulp x) \<le> round_half_even (of_int (2 ^ 53))"
      by (rule round_half_even_mono)
    then have "fl x \<le> of_int (2 ^ 53) * ulp x"
      using assms(1) by (simp add: fl_ulp del: of_int_power of_int_numeral)
    also have "\<dots> = 2 powi (ex + 1)"
      by (simp add: ux power_int_diff power_int_add)
    also have "\<dots> \<le> 2 powi ey"
      using lt by (simp add: pow2_le_iff)
    also have "\<dots> = of_int (2 ^ 52) * ulp y"
      by (simp add: uy power_int_diff)
    also have "\<dots> \<le> fl y"
    proof -
      have "of_int (2 ^ 52) * ulp y = 2 powi ey"
        by (simp add: uy power_int_diff)
      also have "\<dots> \<le> y"
        using ilog2_bounds [OF y] by (simp add: ey')
      finally have "of_int (2 ^ 52) \<le> y / ulp y"
        by (simp add: le_divide_eq)
      then have "round_half_even (of_int (2 ^ 52)) \<le> round_half_even (y / ulp y)"
        by (rule round_half_even_mono)
      then show ?thesis
        using y by (simp add: fl_ulp del: of_int_power of_int_numeral)
    qed
    finally show ?thesis .
  qed
qed

lemma fl_mono:
  assumes "x \<le> y"
  shows "fl x \<le> fl y"
proof -
  consider "0 < x" | "x \<le> 0" "0 \<le> y" | "y < 0"
    using assms by linarith
  then show ?thesis
  proof cases
    case 1
    then show ?thesis using assms by (rule fl_mono_pos)
  next
    case 2
    have "fl x \<le> 0"
      using fl_nonneg [of "- x"] 2(1) by (simp add: fl_minus)
    moreover have "0 \<le> fl y"
      using 2(2) by (rule fl_nonneg)
    ultimately show ?thesis by simp
  next
    case 3
    have "fl (- y) \<le> fl (- x)"
      using 3 assms by (intro fl_mono_pos) simp_all
    then show ?thesis by (simp add: fl_minus)
  qed
qed

lemma ilog2_pow2 [simp]: "ilog2 (2 powi e) = e"
  by (rule ilog2_unique) (simp_all add: pow2_less_iff)

lemma ulp_normal:
  assumes "2 powi (- 1022) \<le> \<bar>x\<bar>"
  shows "ulp x = 2 powi (ilog2 \<bar>x\<bar> - 52)" "ulp x \<le> \<bar>x\<bar> * 2 powi (- 52)"
proof -
  define m :: int where "m = - 1022"
  have a: "2 powi m \<le> \<bar>x\<bar>"
    using assms by (simp only: m_def)
  have pos: "0 < \<bar>x\<bar>"
    using a by (rule less_le_trans [rotated]) simp
  have "ilog2 (2 powi m) \<le> ilog2 \<bar>x\<bar>"
    using a by (intro ilog2_mono) simp_all
  then have e: "m \<le> ilog2 \<bar>x\<bar>" by simp
  then show u: "ulp x = 2 powi (ilog2 \<bar>x\<bar> - 52)"
    by (simp add: ulp_def ulp_exponent_def max_def m_def)
  have "ulp x = 2 powi ilog2 \<bar>x\<bar> * 2 powi (- 52)"
    unfolding u by (subst power_int_add [symmetric]) simp_all
  also have "\<dots> \<le> \<bar>x\<bar> * 2 powi (- 52)"
    using ilog2_bounds [OF pos] by (intro mult_right_mono) simp_all
  finally show "ulp x \<le> \<bar>x\<bar> * 2 powi (- 52)" .
qed

lemma normal_one: "2 powi (- 1022) \<le> (1::rat)"
proof -
  have "(2::rat) powi (- 1022) \<le> 2 powi 0"
    by (subst pow2_le_iff) simp
  then show ?thesis by (simp only: power_int_0_right)
qed

lemma normal_ge_one: "1 \<le> \<bar>x\<bar> \<Longrightarrow> 2 powi (- 1022) \<le> \<bar>x::rat\<bar>"
  using normal_one by (rule order_trans)

lemma fl_relative_error:
  assumes "2 powi (- 1022) \<le> \<bar>x\<bar>"
  shows "\<bar>fl x - x\<bar> \<le> \<bar>x\<bar> * 2 powi (- 53)"
proof -
  have "0 < \<bar>x\<bar>"
    using assms by (rule less_le_trans [rotated]) simp
  then have "x \<noteq> 0" by simp
  then have "\<bar>fl x - x\<bar> \<le> ulp x / 2"
    by (rule fl_error)
  also have "\<dots> \<le> \<bar>x\<bar> * 2 powi (- 52) / 2"
    using ulp_normal(2) [OF assms] by (simp only: divide_right_mono zero_le_numeral)
  also have "\<dots> = \<bar>x\<bar> * 2 powi (- 53)"
    by simp
  finally show ?thesis .
qed

lemma fl_of_nat_pos:
  assumes "0 < n" "n < 2 ^ 53"
  shows "fl (of_int n) = of_int n"
proof -
  let ?x = "of_int n :: rat"
  have x1: "1 \<le> ?x" using assms(1) by simp
  then have ax: "\<bar>?x\<bar> = ?x" and x0: "?x \<noteq> 0" and xpos: "0 < ?x" by simp_all
  have "?x < of_int (2 ^ 53)"
    using assms(2) by (simp only: of_int_less_iff)
  then have lt: "?x < 2 powi 53" by simp
  define e where "e = ilog2 ?x"
  have "(2::rat) powi e < 2 powi 53"
    using ilog2_bounds [OF xpos] lt by (simp add: e_def)
  then have "e < 53" by (simp only: pow2_less_iff)
  then have e: "e \<le> 52" by simp
  have u: "ulp ?x = 2 powi (e - 52)"
    using ulp_normal(1) [of ?x] normal_ge_one [of ?x] x1 by (simp add: e_def)
  define d where "d = nat (52 - e)"
  have "(2::rat) ^ d * 2 powi (e - 52) = 2 powi (int d) * 2 powi (e - 52)"
    by simp
  also have "\<dots> = 2 powi (int d + (e - 52))"
    by (subst power_int_add) simp_all
  also have "\<dots> = 1"
    using e by (simp add: d_def)
  finally have one: "2 ^ d * ulp ?x = 1"
    by (simp only: u)
  have "of_int (n * 2 ^ d) * ulp ?x = ?x * (2 ^ d * ulp ?x)"
    by simp
  also have "\<dots> = ?x"
    by (simp only: one mult_1_right)
  finally have "?x = of_int (n * 2 ^ d) * ulp ?x" by (rule sym)
  with x0 show ?thesis by (rule fl_exact)
qed

lemma fl_of_int:
  assumes "\<bar>n\<bar> < 2 ^ 53"
  shows "fl (of_int n) = of_int n"
proof -
  consider "n = 0" | "0 < n" | "0 < - n" by linarith
  then show ?thesis
  proof cases
    case 1
    then show ?thesis by simp
  next
    case 2
    with assms show ?thesis by (intro fl_of_nat_pos) simp_all
  next
    case 3
    with assms have "fl (of_int (- n)) = of_int (- n)" by (intro fl_of_nat_pos) simp_all
    then show ?thesis by (simp add: fl_minus)
  qed
qed

lemma fl_one [simp]: "fl 1 = 1"
  using fl_of_int [of 1] by simp

lemma normal_ge_half: "1 / 2 \<le> \<bar>x\<bar> \<Longrightarrow> 2 powi (- 1022) \<le> \<bar>x::rat\<bar>"
proof -
  have "(2::rat) powi (- 1022) \<le> 2 powi (- 1)"
    by (subst pow2_le_iff) simp
  also have "\<dots> = 1 / 2" by simp
  finally show "1 / 2 \<le> \<bar>x\<bar> \<Longrightarrow> 2 powi (- 1022) \<le> \<bar>x\<bar>"
    by (rule order_trans)
qed

lemma fl_upper:
  assumes "1 / 2 \<le> x"
  shows "fl x \<le> x * (1 + 1 / 2 ^ 53)"
proof -
  have "\<bar>fl x - x\<bar> \<le> \<bar>x\<bar> * 2 powi (- 53)"
    using assms by (intro fl_relative_error normal_ge_half) simp
  moreover have "\<bar>x\<bar> = x" using assms by simp
  moreover have "(2::rat) powi (- 53) = 1 / 2 ^ 53"
    by (simp add: power_int_minus_divide)
  ultimately have "fl x - x \<le> x * (1 / 2 ^ 53)" by (simp only: abs_le_iff)
  then show ?thesis by (simp add: distrib_left)
qed

lemma float_of_int_bounds:
  assumes "0 < n"
  shows "1 \<le> float_of_int n" "float_of_int n \<le> of_int n * (1 + 1 / 2 ^ 53)"
proof -
  have "fl 1 \<le> fl (of_int n)"
    using assms by (intro fl_mono) simp
  then show "1 \<le> float_of_int n"
    by (simp add: float_of_int_def)
  have "1 \<le> (of_int n :: rat)"
    using assms by simp
  then have "1 / 2 \<le> (of_int n :: rat)"
    by simp
  then show "float_of_int n \<le> of_int n * (1 + 1 / 2 ^ 53)"
    unfolding float_of_int_def by (rule fl_upper)
qed

lemma percentile_index_bounds:
  assumes "0 < count" "1 / 2 \<le> p" "p * (1 + 1 / 2 ^ 53) * (1 + 1 / 2 ^ 53) < 1"
  shows "0 \<le> percentile_index count p" "percentile_index count p < int count"
proof -
  define a where "a = float_of_int (int count)"
  have a1: "1 \<le> a" and a2: "a \<le> of_nat count * (1 + 1 / 2 ^ 53)"
    using float_of_int_bounds [of "int count"] assms(1) by (simp_all add: a_def)
  have p0: "0 < p" using assms(2) by simp
  have "1 * (1 / 2) \<le> a * p"
    using a1 assms(2) by (intro mult_mono) simp_all
  then have half: "1 / 2 \<le> a * p" by simp
  then have nn: "0 \<le> fl (a * p)"
    by (intro fl_nonneg) simp
  have "fl (a * p) \<le> a * p * (1 + 1 / 2 ^ 53)"
    using half by (rule fl_upper)
  also have "\<dots> \<le> (of_nat count * (1 + 1 / 2 ^ 53)) * p * (1 + 1 / 2 ^ 53)"
    using a2 p0 by (intro mult_right_mono) simp_all
  also have "\<dots> = of_nat count * (p * (1 + 1 / 2 ^ 53) * (1 + 1 / 2 ^ 53))"
    by (simp only: mult.assoc mult.commute mult.left_commute)
  also have "\<dots> < of_nat count * 1"
    using assms(1,3) by (intro mult_strict_left_mono) simp_all
  finally have lt: "fl (a * p) < of_int (int count)" by simp
  have idx: "percentile_index count p = \<lfloor>fl (a * p)\<rfloor>"
    using nn by (simp add: percentile_index_def int_of_float_def float_mul_def a_def)
  show "0 \<le> percentile_index count p"
    using nn by (simp add: idx)
  show "percentile_index count p < int count"
    unfolding idx using lt by (simp only: floor_less_iff)
qed

lemma double_0_95: "fl (95 / 100) = 4278419646001971 / 2 ^ 52"
  by code_simp

lemma double_0_99: "fl (99 / 100) = 4458563631096791 / 2 ^ 52"
  by code_simp

lemma index95_bounds:
  "0 < count \<Longrightarrow> 0 \<le> percentile_index count (fl (95 / 100)) \<and>
     percentile_index count (fl (95 / 100)) < int count"
  unfolding double_0_95 by (intro conjI percentile_index_bounds) simp_all

lemma index99_bounds:
  "0 < count \<Longrightarrow> 0 \<le> percentile_index count (fl (99 / 100)) \<and>
     percentile_index count (fl (99 / 100)) < int count"
  unfolding double_0_99 by (intro conjI percentile_index_bounds) simp_all

lemma ulp_bounds:
  assumes "2 powi (- 1022) \<le> \<bar>x\<bar>"
  shows "ulp x * 2 ^ 52 \<le> \<bar>x\<bar>" "\<bar>x\<bar> < ulp x * 2 ^ 53"
proof -
  have pos: "0 < \<bar>x\<bar>"
    using assms by (rule less_le_trans [rotated]) simp
  define e where "e = ilog2 \<bar>x\<bar>"
  have u: "ulp x = 2 powi (e - 52)"
    using ulp_normal(1) [OF assms] by (simp add: e_def)
  have "ulp x * 2 ^ 52 = 2 powi (e - 52) * 2 powi 52"
    by (simp only: u power_int_numeral)
  also have "\<dots> = 2 powi e"
    by (subst power_int_add [symmetric]) simp_all
  finally have 1: "ulp x * 2 ^ 52 = 2 powi e" .
  have "ulp x * 2 ^ 53 = 2 powi (e - 52) * 2 powi 53"
    by (simp only: u power_int_numeral)
  also have "\<dots> = 2 powi (e + 1)"
    by (subst power_int_add [symmetric]) (simp_all add: add.commute)
  finally have 2: "ulp x * 2 ^ 53 = 2 powi (e + 1)" .
  show "ulp x * 2 ^ 52 \<le> \<bar>x\<bar>" "\<bar>x\<bar> < ulp x * 2 ^ 53"
    using ilog2_bounds [OF pos] by (simp_all only: 1 2 e_def)
qed

lemma ulp_divides_one:
  assumes "2 powi (- 1022) \<le> \<bar>x\<bar>" "\<bar>x\<bar> < 2 ^ 53"
  shows "\<exists>d::nat. 2 ^ d * ulp x = 1"
proof -
  have pos: "0 < \<bar>x\<bar>"
    using assms(1) by (rule less_le_trans [rotated]) simp
  define e where "e = ilog2 \<bar>x\<bar>"
  have u: "ulp x = 2 powi (e - 52)"
    using ulp_normal(1) [OF assms(1)] by (simp add: e_def)
  have "\<bar>x\<bar> < 2 powi 53"
    using assms(2) by simp
  then have "(2::rat) powi e < 2 powi 53"
    using ilog2_bounds [OF pos] by (simp add: e_def)
  then have "e < 53" by (simp only: pow2_less_iff)
  then have e: "e \<le> 52" by simp
  define d where "d = nat (52 - e)"
  have "(2::rat) ^ d * 2 powi (e - 52) = 2 powi (int d) * 2 powi (e - 52)"
    by simp
  also have "\<dots> = 2 powi (int d + (e - 52))"
    by (subst power_int_add) simp_all
  also have "\<dots> = 1"
    using e by (simp add: d_def)
  finally have "2 ^ d * ulp x = 1"
    by (simp only: u)
  then show ?thesis ..
qed

lemma int_on_grid:
  assumes "2 powi (- 1022) \<le> \<bar>x\<bar>" "\<bar>x\<bar> < 2 ^ 53"
  shows "\<exists>k. (of_int t :: rat) = of_int k * ulp x"
proof -
  from ulp_divides_one [OF assms] obtain d :: nat where d: "2 ^ d * ulp x = 1" ..
  have "of_int (t * 2 ^ d) * ulp x = of_int t * (2 ^ d * ulp x)"
    by simp
  also have "\<dots> = of_int t"
    by (simp only: d mult_1_right)
  finally show ?thesis by (intro exI [of _ "t * 2 ^ d"]) (rule sym)
qed

lemma index_exact:
  fixes n c m :: nat and d \<delta> :: rat
  assumes n: "0 < n" "n < 2 ^ 44"
    and m: "c < m" "m \<le> 100"
    and d: "d = of_nat c / of_nat m - \<delta>" "0 \<le> \<delta>" "\<delta> \<le> 1 / (5 * 2 ^ 52)" "9 / 10 \<le> d"
  shows "percentile_index n d = int (n * c div m)"
proof -
  define x where "x = of_nat n * d"
  define t where "t = n * c div m"
  define r where "r = n * c mod m"
  define q :: rat where "q = of_nat (n * c) / of_nat m"
  have m0: "0 < m" using m by simp
  have n1: "(1::rat) \<le> of_nat n" using n(1) by simp
  have nlt: "(of_nat n :: rat) < 2 ^ 44"
    using n(2) by (metis of_nat_less_iff of_nat_numeral of_nat_power)
  have a: "float_of_int (int n) = of_nat n"
  proof -
    have "\<bar>int n\<bar> < 2 ^ 53"
      using n(2) by (simp add: order_less_trans [of _ "2 ^ 44"])
    then have "fl (of_int (int n)) = of_int (int n)"
      by (rule fl_of_int)
    then show ?thesis
      by (simp add: float_of_int_def)
  qed
  have xq: "x = q - of_nat n * \<delta>"
    by (simp add: x_def q_def d(1) algebra_simps)
  have ndelta: "0 \<le> of_nat n * \<delta>" "of_nat n * \<delta> \<le> of_nat n / (5 * 2 ^ 52)"
    using d(2,3) mult_left_mono [of \<delta> "1 / (5 * 2 ^ 52)" "of_nat n"] by simp_all
  have decomp: "of_nat (n * c) = (of_nat t :: rat) * of_nat m + of_nat r"
    unfolding t_def r_def by (simp only: of_nat_mult [symmetric] of_nat_add [symmetric] div_mult_mod_eq)
  have qt: "q = of_nat t + of_nat r / of_nat m"
    unfolding q_def decomp using m0 by (simp add: add_divide_distrib)
  have rm: "r < m" using m0 by (simp add: r_def)
  have xlow: "9 / 10 * of_nat n \<le> x"
    unfolding x_def using mult_left_mono [OF d(4), of "of_nat n"] by (simp add: mult.commute)
  have xhalf: "1 / 2 \<le> x"
    using xlow n1 by linarith
  have xpos: "0 < x" and xabs: "\<bar>x\<bar> = x" and x0: "x \<noteq> 0"
    using xhalf by simp_all
  have dlt: "d \<le> 1"
  proof -
    have "(of_nat c :: rat) / of_nat m \<le> 1"
      using m by simp
    with d(1,2) show ?thesis by linarith
  qed
  have xup: "x < 2 ^ 44"
  proof -
    have "x \<le> of_nat n * 1"
      unfolding x_def using dlt by (intro mult_left_mono) simp_all
    with nlt show ?thesis by simp
  qed
  have normal: "2 powi (- 1022) \<le> \<bar>x\<bar>"
    using xhalf by (intro normal_ge_half) simp
  note ub = ulp_bounds [OF normal, unfolded xabs]
  have ulp_small: "ulp x / 2 < 1 / 512"
    using ub(1) xup by simp
  have err: "\<bar>fl x - x\<bar> \<le> ulp x / 2"
    using x0 by (rule fl_error)
  have upper: "fl x < of_nat t + 1"
  proof -
    have "of_nat r / (of_nat m :: rat) \<le> 1 - 1 / of_nat m"
      using rm m0 by (simp add: field_simps) 
    also have "\<dots> \<le> 1 - 1 / 100"
      using m(2) m0 by (simp add: field_simps)
    finally have "q \<le> of_nat t + (1 - 1 / 100)"
      by (simp add: qt)
    with xq ndelta(1) have "x \<le> of_nat t + (1 - 1 / 100)" by linarith
    with err ulp_small show ?thesis by (simp only: abs_le_iff) linarith
  qed
  have lower: "of_nat t \<le> fl x"
  proof (cases "r = 0")
    case True
    then have xt: "x = of_nat t - of_nat n * \<delta>"
      by (simp add: xq qt)
    obtain k where k: "(of_int (int t) :: rat) = of_int k * ulp x"
      using int_on_grid [of x "int t"] normal xup by (auto simp: xabs)
    have "of_nat n * \<delta> < ulp x / 2"
    proof -
      have "of_nat n * \<delta> \<le> 2 / 5 * of_nat n / 2 ^ 53"
        using ndelta(2) by simp
      also have "\<dots> < 9 / 20 * of_nat n / 2 ^ 53"
        using n(1) by simp
      also have "\<dots> \<le> x / 2 ^ 54"
        using xlow by simp
      also have "\<dots> < ulp x * 2 ^ 53 / 2 ^ 54"
        using ub(2) by (simp only: divide_strict_right_mono zero_less_power zero_less_numeral)
      also have "\<dots> = ulp x / 2"
        by simp
      finally show ?thesis .
    qed
    moreover have "\<bar>x - of_int k * ulp x\<bar> = of_nat n * \<delta>"
    proof -
      have "x - of_int k * ulp x = x - of_nat t"
        by (simp only: k [symmetric] of_int_of_nat_eq)
      also have "\<dots> = - (of_nat n * \<delta>)"
        by (simp add: xt)
      finally show ?thesis
        using ndelta(1) by simp
    qed
    ultimately have "\<bar>x - of_int k * ulp x\<bar> < ulp x / 2"
      by (simp only:)
    with x0 have "fl x = of_int k * ulp x"
      by (rule fl_grid)
    then show ?thesis by (simp add: k [symmetric])
  next
    case False
    then have "1 \<le> r" by simp
    then have "(1::rat) / of_nat m \<le> of_nat r / of_nat m"
      using m0 by (simp add: divide_right_mono)
    moreover have "(1::rat) / 100 \<le> 1 / of_nat m"
      using m(2) m0 by (simp add: field_simps)
    ultimately have "(1::rat) / 100 \<le> of_nat r / of_nat m"
      by (rule order_trans [rotated])
    then have "of_nat t + 1 / 100 \<le> q"
      unfolding qt by (simp only: add_left_mono)
    moreover have "of_nat n * \<delta> < 1 / 100"
    proof -
      have "of_nat n / (5 * 2 ^ 52) < (2 ^ 44 :: rat) / (5 * 2 ^ 52)"
        using nlt by (intro divide_strict_right_mono) simp_all
      with ndelta(2) show ?thesis by simp
    qed
    ultimately have "of_nat t \<le> x"
      using xq by linarith
    then have "fl (of_int (int t)) \<le> fl x"
      by (intro fl_mono) simp
    moreover have "fl (of_int (int t)) = of_int (int t)"
    proof (rule fl_of_int)
      have "t \<le> n * c div m" by (simp add: t_def)
      also have "\<dots> \<le> n * m div m"
        using m(1) by (intro div_le_mono mult_le_mono) simp_all
      also have "\<dots> = n" using m0 by simp
      finally have "t < 2 ^ 44" using n(2) by simp
      then show "\<bar>int t\<bar> < 2 ^ 53" by (simp add: order_less_trans [of _ "2 ^ 44"])
    qed
    ultimately show ?thesis by simp
  qed
  have fnn: "0 \<le> fl x"
    using xpos by (intro fl_nonneg) simp
  have "\<lfloor>fl x\<rfloor> = int t"
    using lower upper by (intro floor_unique) simp_all
  then show ?thesis
    using fnn by (simp add: percentile_index_def int_of_float_def float_mul_def a x_def t_def)
qed


lemma is_doubleI: "fl x = x \<Longrightarrow> \<bar>x\<bar> < 2 ^ 53 \<Longrightarrow> is_double x"
proof -
  assume a: "fl x = x" "\<bar>x\<bar> < 2 ^ 53"
  have "(2::rat) ^ 53 \<le> 2 ^ 1024"
    by (rule power_increasing) simp_all
  with a(2) have "\<bar>x\<bar> < 2 ^ 1024"
    by (rule less_le_trans)
  with a(1) show ?thesis
    by (simp only: is_double_def simp_thms)
qed

lemma is_double_of_int: "\<bar>n\<bar> < 2 ^ 53 \<Longrightarrow> is_double (of_int n)"
proof (rule is_doubleI)
  assume a: "\<bar>n\<bar> < 2 ^ 53"
  then show "fl (of_int n) = of_int n" by (rule fl_of_int)
  have "(of_int \<bar>n\<bar> :: rat) < of_int (2 ^ 53)"
    using a by (simp only: of_int_less_iff)
  then show "\<bar>of_int n :: rat\<bar> < 2 ^ 53" by simp
qed

lemma is_double_numeral: "\<bar>numeral k :: int\<bar> < 2 ^ 53 \<Longrightarrow> is_double (numeral k)"
  using is_double_of_int [of "numeral k"] by simp

subsection \<open>The per-request update\<close>

lemma simulate_user_total:
  "total_requests (simulate_user outcome ms r) = total_requests r + 1"
  by (cases outcome) (simp_all add: Let_def)

lemma simulate_user_times:
  "response_times (simulate_user outcome ms r) = response_times r @ [ms]"
  by (cases outcome) (simp_all add: Let_def)

lemma simulate_user_successful:
  "successful_requests (simulate_user outcome ms r) =
     successful_requests r + (if outcome = Response 200 then 1 else 0)"
  by (cases outcome) (simp_all add: Let_def)

lemma simulate_user_failed:
  "failed_requests (simulate_user outcome ms r) =
     failed_requests r + (if outcome = Response 200 then 0 else 1)"
  by (cases outcome) (simp_all add: Let_def)

lemma reachable_counters:
  "reachable r \<Longrightarrow> total_requests r = successful_requests r + failed_requests r"
  by (induction rule: reachable.induct)
     (simp_all add: new_LoadTestResult_def simulate_user_total simulate_user_successful
        simulate_user_failed)

lemma reachable_length:
  "reachable r \<Longrightarrow> int (length (response_times r)) = total_requests r"
  by (induction rule: reachable.induct)
     (simp_all add: new_LoadTestResult_def simulate_user_total simulate_user_times)


lemma simulate_user_statements:
  "simulate_user outcome ms r = add_latency ms (add_outcome outcome (add_total r))"
  by (cases outcome) (simp_all add: add_total_def add_latency_def Let_def)

lemma finished_count_update:
  "i < length ps \<Longrightarrow>
     finished_count (ps[i := p]) =
       finished_count ps - (if ps ! i = Finished then 1 else 0) + (if p = Finished then 1 else 0)"
proof (induction ps arbitrary: i)
  case Nil
  then show ?case by simp
next
  case (Cons q ps)
  show ?case
  proof (cases i)
    case 0
    then show ?thesis by (simp add: finished_count_def)
  next
    case (Suc j)
    with Cons.prems have "j < length ps" by simp
    from Cons.IH [OF this] have
      "finished_count (q # ps[j := p]) =
         finished_count (q # ps) - (if ps ! j = Finished then 1 else 0) +
           (if p = Finished then 1 else 0)"
      by (simp add: finished_count_def)
    with Suc show ?thesis by simp
  qed
qed

lemma finished_count_replicate [simp]:
  "finished_count (replicate n Requesting) = 0"
  by (induction n) (simp_all add: finished_count_def)

lemma finished_count_all:
  "all_finished ps \<Longrightarrow> finished_count ps = int (length ps)"
proof (induction ps)
  case Nil
  show ?case by (simp add: finished_count_def)
next
  case (Cons p ps)
  from Cons.prems have "p = Finished" and "all_finished ps"
    by (auto simp: all_finished_def)
  with Cons.IH show ?case by (simp add: finished_count_def)
qed

lemma add_outcome_fields:
  "successful_requests (add_outcome outcome r) + failed_requests (add_outcome outcome r) =
     successful_requests r + failed_requests r + 1"
  "total_requests (add_outcome outcome r) = total_requests r"
  "response_times (add_outcome outcome r) = response_times r"
  "end_time (add_outcome outcome r) = end_time r"
  by (cases outcome; simp)+

lemma add_outcome_end_time:
  "add_outcome outcome (r\<lparr>end_time := t\<rparr>) = (add_outcome outcome r)\<lparr>end_time := t\<rparr>"
  by (cases outcome) simp_all

lemma thread_step_invariant:
  assumes "thread_step requests s s'" "run_invariant s"
  shows "run_invariant s'"
  using assms
proof (cases rule: thread_step.cases)
  case (acquire i)
  with assms(2) show ?thesis
    by (auto simp: run_invariant_def in_block_def finished_count_update nth_list_update
          Let_def split: option.splits)
next
  case (total i)
  with assms(2) have h: "lock_holder s = Some i"
    by (auto simp: run_invariant_def in_block_def)
  with total assms(2) show ?thesis
    by (auto simp: run_invariant_def in_block_def finished_count_update nth_list_update
          add_total_def Let_def split: option.splits)
next
  case (outcome i)
  with assms(2) have h: "lock_holder s = Some i"
    by (auto simp: run_invariant_def in_block_def)
  with outcome assms(2) show ?thesis
    by (auto simp: run_invariant_def in_block_def finished_count_update nth_list_update
          add_outcome_fields Let_def split: option.splits)
next
  case (append_release i)
  with assms(2) have h: "lock_holder s = Some i"
    by (auto simp: run_invariant_def in_block_def)
  with append_release assms(2) show ?thesis
    by (auto simp: run_invariant_def in_block_def finished_count_update nth_list_update
          add_latency_def Let_def split: option.splits)
qed

lemma main_step_invariant:
  assumes "main_step s s'" "run_invariant s"
  shows "run_invariant s'"
  using assms
  by (cases rule: main_step.cases)
     (auto simp: run_invariant_def Let_def split: option.splits)

lemma run_reachable_invariant: "run_reachable requests s \<Longrightarrow> run_invariant s"
proof (induction rule: run_reachable.induct)
  case (started t users duration)
  show ?case
    by (simp add: run_invariant_def in_block_def new_LoadTestResult_def Let_def)
next
  case (stepped s s')
  then show ?case by (simp add: thread_step_invariant)
next
  case (main_stepped s s')
  then show ?case by (simp add: main_step_invariant)
qed

lemma lock_free_consistent:
  assumes "run_reachable requests s" "lock_holder s = None"
  shows "total_requests (shared s) = finished_count (threads s)"
    "total_requests (shared s) = successful_requests (shared s) + failed_requests (shared s)"
    "int (length (response_times (shared s))) = total_requests (shared s)"
  using run_reachable_invariant [OF assms(1)] assms(2)
  by (simp_all add: run_invariant_def Let_def)

lemma all_finished_lock_free:
  assumes "run_invariant s" "all_finished (threads s)"
  shows "lock_holder s = None"
proof (cases "lock_holder s")
  case (Some i)
  with assms(1) have "i < length (threads s)" "in_block (threads s ! i)"
    by (auto simp: run_invariant_def)
  with assms(2) show ?thesis
    by (simp add: all_finished_def in_block_def)
qed simp

lemma run_reachable_refines:
  assumes "run_reachable requests s"
  shows "case lock_holder s of
           None \<Rightarrow> reachable (shared s)
         | Some i \<Rightarrow>
             (case threads s ! i of
                At_total \<Rightarrow> reachable (shared s)
              | At_outcome \<Rightarrow> (\<exists>r. reachable r \<and> shared s = add_total r)
              | At_append \<Rightarrow>
                  (\<exists>r. reachable r \<and>
                     shared s = add_outcome (fst (requests ! i)) (add_total r))
              | _ \<Rightarrow> False)"
  using assms
proof (induction rule: run_reachable.induct)
  case (started t users duration)
  show ?case by (simp add: reachable.created)
next
  case (stepped s s')
  have inv: "run_invariant s"
    using stepped.hyps(1) by (rule run_reachable_invariant)
  from stepped.hyps(2) show ?case
  proof (cases rule: thread_step.cases)
    case (acquire i)
    with stepped.IH show ?thesis by simp
  next
    case (total i)
    with inv have "lock_holder s = Some i"
      by (auto simp: run_invariant_def in_block_def)
    with total stepped.IH show ?thesis by auto
  next
    case (outcome i)
    with inv have "lock_holder s = Some i"
      by (auto simp: run_invariant_def in_block_def)
    with outcome stepped.IH show ?thesis by auto
  next
    case (append_release i)
    with inv have "lock_holder s = Some i"
      by (auto simp: run_invariant_def in_block_def)
    with append_release stepped.IH obtain r where
      r: "reachable r" "shared s = add_outcome (fst (requests ! i)) (add_total r)"
      by auto
    have "shared s' = simulate_user (fst (requests ! i)) (snd (requests ! i)) r"
      by (simp add: append_release(1) r(2) simulate_user_statements)
    with r(1) show ?thesis
      by (simp add: append_release(1) reachable.updated)
  qed
next
  case (main_stepped s s')
  from main_stepped.hyps(2) show ?case
  proof (cases rule: main_step.cases)
    case (set_end_time k t)
    show ?thesis
    proof (cases "lock_holder s")
      case None
      with main_stepped.IH set_end_time show ?thesis
        by (simp add: reachable.finalized)
    next
      case (Some i)
      have fin: "reachable r \<Longrightarrow> reachable (r\<lparr>end_time := Some t\<rparr>)" for r
        by (rule reachable.finalized)
      have 1: "add_total (r\<lparr>end_time := Some t\<rparr>) = (add_total r)\<lparr>end_time := Some t\<rparr>" for r
        by (simp add: add_total_def)
      from Some main_stepped.IH set_end_time show ?thesis
        by (cases "threads s ! i")
           (auto simp: 1 [symmetric] add_outcome_end_time [symmetric] intro: fin)
    qed
  qed (use main_stepped.IH in \<open>auto split: option.splits position.splits\<close>)
qed

lemma lock_free_reachable:
  "run_reachable requests s \<Longrightarrow> lock_holder s = None \<Longrightarrow> reachable (shared s)"
  using run_reachable_refines [of requests s] by simp

lemma thread_step_joined:
  assumes "thread_step requests s s'" "joined_invariant requests s"
  shows "joined_invariant requests s'"
  using assms
proof (cases rule: thread_step.cases)
  case (acquire i)
  with assms(2) show ?thesis
    by (auto simp: joined_invariant_def all_finished_def nth_list_update
          split: main_position.splits)
next
  case (total i)
  with assms(2) show ?thesis
    by (auto simp: joined_invariant_def all_finished_def nth_list_update add_total_def
          split: main_position.splits)
next
  case (outcome i)
  with assms(2) show ?thesis
    by (auto simp: joined_invariant_def all_finished_def nth_list_update add_outcome_fields
          split: main_position.splits)
next
  case (append_release i)
  with assms(2) show ?thesis
    by (auto simp: joined_invariant_def all_finished_def nth_list_update add_latency_def
          split: main_position.splits)
qed

lemma main_step_joined:
  assumes "main_step s s'" "joined_invariant requests s"
  shows "joined_invariant requests s'"
  using assms
  by (cases rule: main_step.cases)
     (auto simp: joined_invariant_def all_finished_def less_Suc_eq
        split: main_position.splits)

lemma run_reachable_joined: "run_reachable requests s \<Longrightarrow> joined_invariant requests s"
proof (induction rule: run_reachable.induct)
  case (started t users duration)
  show ?case by (simp add: joined_invariant_def)
next
  case (stepped s s')
  then show ?case by (simp add: thread_step_joined)
next
  case (main_stepped s s')
  then show ?case by (simp add: main_step_joined)
qed

lemma joined_snapshot:
  assumes "run_reachable requests s" "\<not> timed_out s" "main_thread s = Read_derived"
  shows "lock_holder s = None" "end_time (shared s) \<noteq> None"
    "dict_total s = total_requests (shared s)"
    "dict_successful s = successful_requests (shared s)"
    "dict_failed s = failed_requests (shared s)"
    "dict_total s = int (length requests)"
    "dict_total s = dict_successful s + dict_failed s"
proof -
  have j: "joined_invariant requests s"
    using assms(1) by (rule run_reachable_joined)
  have inv: "run_invariant s"
    using assms(1) by (rule run_reachable_invariant)
  from j assms(2,3) have fin: "all_finished (threads s)"
    and len: "length (threads s) = length requests"
    and 1: "end_time (shared s) \<noteq> None" "dict_total s = total_requests (shared s)"
      "dict_successful s = successful_requests (shared s)"
      "dict_failed s = failed_requests (shared s)"
    by (simp_all add: joined_invariant_def)
  show free: "lock_holder s = None"
    using inv fin by (rule all_finished_lock_free)
  show "end_time (shared s) \<noteq> None" "dict_total s = total_requests (shared s)"
    "dict_successful s = successful_requests (shared s)"
    "dict_failed s = failed_requests (shared s)"
    by (fact 1)+
  show "dict_total s = int (length requests)"
    using lock_free_consistent(1) [OF assms(1) free] finished_count_all [OF fin]
    by (simp add: 1 len)
  show "dict_total s = dict_successful s + dict_failed s"
    using lock_free_consistent(2) [OF assms(1) free] by (simp add: 1)
qed

text \<open>
  Claim C1, as stated, fails for the finalized run result. One virtual user is inside its
  block, after \<^verbatim>\<open>total_requests += 1\<close>, when its join times out; the main thread
  sets the end time and reads the counters without the lock. The finalized result and
  the snapshot have \<open>total_requests = 1\<close> with \<open>successful_requests + failed_requests = 0\<close>
  and no latency.
\<close>

theorem finalized_torn_counterexample:
  "\<exists>s. run_reachable [(Response 200, 120)] s \<and>
       main_thread s = Read_derived \<and> end_time (shared s) = Some 5 \<and>
       total_requests (shared s) = 1 \<and>
       successful_requests (shared s) + failed_requests (shared s) = 0 \<and>
       length (response_times (shared s)) = 0 \<and>
       dict_total s = 1 \<and> dict_successful s + dict_failed s = 0"
proof -
  let ?reqs = "[(Response 200, 120 :: rat)]"
  let ?r0 = "new_LoadTestResult\<lparr>start_time := Some 0, concurrent_users := 1,
            test_duration := - 5\<rparr>"
  let ?r1 = "(add_total ?r0)\<lparr>end_time := Some 5\<rparr>"
  let ?s0 = "\<lparr>shared = ?r0, lock_holder = None, threads = [Requesting],
    main_thread = Joining 0, timed_out = False,
    dict_total = 0, dict_successful = 0, dict_failed = 0\<rparr>"
  let ?s1 = "\<lparr>shared = ?r0, lock_holder = Some 0, threads = [At_total],
    main_thread = Joining 0, timed_out = False,
    dict_total = 0, dict_successful = 0, dict_failed = 0\<rparr>"
  let ?s2 = "\<lparr>shared = add_total ?r0, lock_holder = Some 0, threads = [At_outcome],
    main_thread = Joining 0, timed_out = False,
    dict_total = 0, dict_successful = 0, dict_failed = 0\<rparr>"
  let ?s3 = "\<lparr>shared = add_total ?r0, lock_holder = Some 0, threads = [At_outcome],
    main_thread = Joining 1, timed_out = True,
    dict_total = 0, dict_successful = 0, dict_failed = 0\<rparr>"
  let ?s4 = "\<lparr>shared = ?r1, lock_holder = Some 0, threads = [At_outcome],
    main_thread = Read_total, timed_out = True,
    dict_total = 0, dict_successful = 0, dict_failed = 0\<rparr>"
  let ?s5 = "\<lparr>shared = ?r1, lock_holder = Some 0, threads = [At_outcome],
    main_thread = Read_successful, timed_out = True,
    dict_total = 1, dict_successful = 0, dict_failed = 0\<rparr>"
  let ?s6 = "\<lparr>shared = ?r1, lock_holder = Some 0, threads = [At_outcome],
    main_thread = Read_failed, timed_out = True,
    dict_total = 1, dict_successful = 0, dict_failed = 0\<rparr>"
  let ?s7 = "\<lparr>shared = ?r1, lock_holder = Some 0, threads = [At_outcome],
    main_thread = Read_derived, timed_out = True,
    dict_total = 1, dict_successful = 0, dict_failed = 0\<rparr>"
  have s0: "run_reachable ?reqs ?s0"
    using run_reachable.started [of ?reqs, where t = 0 and users = 1 and duration = "- 5"]
    by simp
  have s1: "run_reachable ?reqs ?s1"
    using run_reachable.stepped [OF s0 thread_step.acquire [of 0 ?s0 ?reqs]] by simp
  have s2: "run_reachable ?reqs ?s2"
    using run_reachable.stepped [OF s1 thread_step.total [of 0 ?s1 ?reqs]] by simp
  have s3: "run_reachable ?reqs ?s3"
    using run_reachable.main_stepped [OF s2 main_step.join_timeout [of ?s2 0]] by simp
  have s4: "run_reachable ?reqs ?s4"
    using run_reachable.main_stepped [OF s3 main_step.set_end_time [of ?s3 1 5]] by simp
  have s5: "run_reachable ?reqs ?s5"
    using run_reachable.main_stepped [OF s4 main_step.read_total [of ?s4]]
    by (simp add: add_total_def new_LoadTestResult_def)
  have s6: "run_reachable ?reqs ?s6"
    using run_reachable.main_stepped [OF s5 main_step.read_successful [of ?s5]]
    by (simp add: add_total_def new_LoadTestResult_def)
  have s7: "run_reachable ?reqs ?s7"
    using run_reachable.main_stepped [OF s6 main_step.read_failed [of ?s6]]
    by (simp add: add_total_def new_LoadTestResult_def)
  from s7 show ?thesis
    by (intro exI [of _ ?s7]) (simp add: add_total_def new_LoadTestResult_def)
qed

text \<open>
  Claim C1, amended. Each update of the shared run result by a virtual user adds one to
  \<open>total_requests\<close>, adds one to exactly one of \<open>successful_requests\<close> and
  \<open>failed_requests\<close>, and appends exactly one latency. Every run result that whole
  updates reach has \<open>total_requests = successful_requests + failed_requests\<close> and as
  many latencies as \<open>total_requests\<close>; in every interleaving of the threads and the
  main thread these are the states in which no thread is inside its block, and there
  \<open>total_requests\<close> is the number of finished threads. When no join has timed out, the
  finalized result is such a state and the counters that \<^verbatim>\<open>to_dict\<close> reads are
  those of the result: \<open>total_requests\<close> is the number of virtual users and the sum of
  the other two.
\<close>

theorem run_result_update_invariant:
  "total_requests (simulate_user outcome ms r) = total_requests r + 1 \<and>
   (successful_requests (simulate_user outcome ms r) = successful_requests r + 1 \<and>
      failed_requests (simulate_user outcome ms r) = failed_requests r
    \<or> successful_requests (simulate_user outcome ms r) = successful_requests r \<and>
      failed_requests (simulate_user outcome ms r) = failed_requests r + 1) \<and>
   response_times (simulate_user outcome ms r) = response_times r @ [ms] \<and>
   (reachable r \<longrightarrow>
      total_requests r = successful_requests r + failed_requests r \<and>
      int (length (response_times r)) = total_requests r) \<and>
   (run_reachable requests s \<and> lock_holder s = None \<longrightarrow>
      reachable (shared s) \<and> total_requests (shared s) = finished_count (threads s)) \<and>
   (run_reachable requests s \<and> \<not> timed_out s \<and> main_thread s = Read_derived \<longrightarrow>
      lock_holder s = None \<and> end_time (shared s) \<noteq> None \<and>
      dict_total s = total_requests (shared s) \<and>
      dict_successful s = successful_requests (shared s) \<and>
      dict_failed s = failed_requests (shared s) \<and>
      dict_total s = int (length requests) \<and>
      dict_total s = dict_successful s + dict_failed s)"
  using lock_free_reachable [of requests s] lock_free_consistent(1) [of requests s]
    joined_snapshot [of requests s]
  by (simp add: simulate_user_total simulate_user_successful simulate_user_failed
        simulate_user_times reachable_counters reachable_length)

theorem run_result_update_invariant_witness:
  "\<exists>s. run_reachable [(Response 200, 120)] s \<and> \<not> timed_out s \<and>
       main_thread s = Read_derived \<and> lock_holder s = None \<and> reachable (shared s) \<and>
       shared s = (simulate_user (Response 200) 120
         (new_LoadTestResult\<lparr>start_time := Some 0, concurrent_users := 1,
            test_duration := 1\<rparr>))\<lparr>end_time := Some 5\<rparr> \<and>
       total_requests (shared s) = 1 \<and> successful_requests (shared s) = 1 \<and>
       length (response_times (shared s)) = 1 \<and>
       dict_total s = 1 \<and> dict_successful s = 1 \<and> dict_failed s = 0"
proof -
  let ?reqs = "[(Response 200, 120 :: rat)]"
  let ?r0 = "new_LoadTestResult\<lparr>start_time := Some 0, concurrent_users := 1,
            test_duration := 1\<rparr>"
  let ?r1 = "simulate_user (Response 200) 120 ?r0"
  let ?r2 = "?r1\<lparr>end_time := Some 5\<rparr>"
  let ?s0 = "\<lparr>shared = ?r0, lock_holder = None, threads = [Requesting],
    main_thread = Joining 0, timed_out = False,
    dict_total = 0, dict_successful = 0, dict_failed = 0\<rparr>"
  let ?s1 = "\<lparr>shared = ?r0, lock_holder = Some 0, threads = [At_total],
    main_thread = Joining 0, timed_out = False,
    dict_total = 0, dict_successful = 0, dict_failed = 0\<rparr>"
  let ?s2 = "\<lparr>shared = add_total ?r0, lock_holder = Some 0, threads = [At_outcome],
    main_thread = Joining 0, timed_out = False,
    dict_total = 0, dict_successful = 0, dict_failed = 0\<rparr>"
  let ?s3 = "\<lparr>shared = add_outcome (Response 200) (add_total ?r0), lock_holder = Some 0,
    threads = [At_append], main_thread = Joining 0, timed_out = False,
    dict_total = 0, dict_successful = 0, dict_failed = 0\<rparr>"
  let ?s4 = "\<lparr>shared = ?r1, lock_holder = None, threads = [Finished],
    main_thread = Joining 0, timed_out = False,
    dict_total = 0, dict_successful = 0, dict_failed = 0\<rparr>"
  let ?s5 = "\<lparr>shared = ?r1, lock_holder = None, threads = [Finished],
    main_thread = Joining 1, timed_out = False,
    dict_total = 0, dict_successful = 0, dict_failed = 0\<rparr>"
  let ?s6 = "\<lparr>shared = ?r2, lock_holder = None, threads = [Finished],
    main_thread = Read_total, timed_out = False,
    dict_total = 0, dict_successful = 0, dict_failed = 0\<rparr>"
  let ?s7 = "\<lparr>shared = ?r2, lock_holder = None, threads = [Finished],
    main_thread = Read_successful, timed_out = False,
    dict_total = 1, dict_successful = 0, dict_failed = 0\<rparr>"
  let ?s8 = "\<lparr>shared = ?r2, lock_holder = None, threads = [Finished],
    main_thread = Read_failed, timed_out = False,
    dict_total = 1, dict_successful = 1, dict_failed = 0\<rparr>"
  let ?s9 = "\<lparr>shared = ?r2, lock_holder = None, threads = [Finished],
    main_thread = Read_derived, timed_out = False,
    dict_total = 1, dict_successful = 1, dict_failed = 0\<rparr>"
  have s0: "run_reachable ?reqs ?s0"
    using run_reachable.started [of ?reqs, where t = 0 and users = 1 and duration = 1]
    by simp
  have s1: "run_reachable ?reqs ?s1"
    using run_reachable.stepped [OF s0 thread_step.acquire [of 0 ?s0 ?reqs]] by simp
  have s2: "run_reachable ?reqs ?s2"
    using run_reachable.stepped [OF s1 thread_step.total [of 0 ?s1 ?reqs]] by simp
  have s3: "run_reachable ?reqs ?s3"
    using run_reachable.stepped [OF s2 thread_step.outcome [of 0 ?s2 ?reqs]] by simp
  have s4: "run_reachable ?reqs ?s4"
    using run_reachable.stepped [OF s3 thread_step.append_release [of 0 ?s3 ?reqs]]
    by (simp add: simulate_user_statements)
  have s5: "run_reachable ?reqs ?s5"
    using run_reachable.main_stepped [OF s4 main_step.join_finished [of ?s4 0]] by simp
  have s6: "run_reachable ?reqs ?s6"
    using run_reachable.main_stepped [OF s5 main_step.set_end_time [of ?s5 1 5]] by simp
  have s7: "run_reachable ?reqs ?s7"
    using run_reachable.main_stepped [OF s6 main_step.read_total [of ?s6]]
    by (simp add: new_LoadTestResult_def)
  have s8: "run_reachable ?reqs ?s8"
    using run_reachable.main_stepped [OF s7 main_step.read_successful [of ?s7]]
    by (simp add: new_LoadTestResult_def)
  have s9: "run_reachable ?reqs ?s9"
    using run_reachable.main_stepped [OF s8 main_step.read_failed [of ?s8]]
    by (simp add: new_LoadTestResult_def)
  from s9 run_result_update_invariant [of "Response 200" 120 ?r2 ?reqs ?s9]
  show ?thesis
    by (intro exI [of _ ?s9]) (simp add: new_LoadTestResult_def)
qed

text \<open>
  Claim C10. When the request returns a response, the update counts a success if and
  only if the status code is exactly 200; every other status code, 2xx and 3xx included,
  adds one to \<open>failed_requests\<close>; in both cases the latency is appended.
\<close>

theorem status_200_classification:
  "successful_requests (simulate_user (Response status_code) ms r) =
     successful_requests r + (if status_code = 200 then 1 else 0) \<and>
   failed_requests (simulate_user (Response status_code) ms r) =
     failed_requests r + (if status_code = 200 then 0 else 1) \<and>
   response_times (simulate_user (Response status_code) ms r) = response_times r @ [ms] \<and>
   total_requests (simulate_user (Response status_code) ms r) = total_requests r + 1"
  by (simp add: Let_def)

theorem status_200_classification_witness:
  "successful_requests (simulate_user (Response 201) 35 new_LoadTestResult) = 0 \<and>
   failed_requests (simulate_user (Response 201) 35 new_LoadTestResult) = 1 \<and>
   successful_requests (simulate_user (Response 200) 35 new_LoadTestResult) = 1 \<and>
   failed_requests (simulate_user (Response 302) 35 new_LoadTestResult) = 1 \<and>
   response_times (simulate_user (Response 302) 35 new_LoadTestResult) = [35]"
  using status_200_classification [of 201 35 new_LoadTestResult]
    status_200_classification [of 200 35 new_LoadTestResult]
    status_200_classification [of 302 35 new_LoadTestResult]
  by (simp add: new_LoadTestResult_def)

subsection \<open>The test history\<close>

lemma deque_append_bounded:
  "length d \<le> maxlen \<Longrightarrow> 0 < maxlen \<Longrightarrow>
     deque_append maxlen d x = (if length d < maxlen then d @ [x] else tl d @ [x])"
  by (cases d) (auto simp: deque_append_def Let_def)

lemma deque_append_drop:
  "length d \<le> maxlen \<Longrightarrow> deque_append maxlen d x = drop (length d + 1 - maxlen) (d @ [x])"
  by (cases d) (auto simp: deque_append_def Let_def drop_Cons')

lemma deque_append_length:
  "length d \<le> maxlen \<Longrightarrow> length (deque_append maxlen d x) \<le> maxlen"
  by (simp add: deque_append_drop)

lemma history_append_all_drop:
  "length h \<le> history_maxlen \<Longrightarrow>
     history_append_all h xs = drop (length h + length xs - history_maxlen) (h @ xs)"
proof (induction xs arbitrary: h)
  case Nil
  then show ?case by (simp add: history_append_all_def)
next
  case (Cons x xs)
  define k where "k = length h + 1 - history_maxlen"
  let ?h' = "history_append h x"
  have len: "length ?h' \<le> history_maxlen"
    using Cons.prems by (simp add: history_append_def deque_append_length)
  have h': "?h' = drop k (h @ [x])"
    using Cons.prems by (simp add: history_append_def deque_append_drop k_def)
  have k: "k \<le> length h + 1"
    by (simp add: k_def)
  have app: "?h' @ xs = drop k (h @ x # xs)"
    using k by (auto simp: h' drop_Cons')
  have len': "length ?h' = length h + 1 - k"
    by (simp add: h')
  have "history_append_all h (x # xs) = history_append_all ?h' xs"
    by (simp add: history_append_all_def)
  also have "\<dots> = drop (length ?h' + length xs - history_maxlen) (?h' @ xs)"
    using Cons.IH [OF len] .
  also have "\<dots> = drop (length ?h' + length xs - history_maxlen + k) (h @ x # xs)"
    by (simp only: app drop_drop)
  also have "length ?h' + length xs - history_maxlen + k =
      length h + length (x # xs) - history_maxlen"
    using Cons.prems by (simp add: len' k_def)
  finally show ?case .
qed

text \<open>
  Claim C7. The test history is a FIFO of capacity 50: a result is recorded at the end,
  in insertion order, and when the history already holds 50 results the oldest one is
  evicted; so after 51 results are recorded into the empty history, 50 remain and the
  first of the 51 is the one that is gone.
\<close>

theorem history_fifo:
  "length h \<le> 50 \<Longrightarrow>
     history_append h x = (if length h < 50 then h @ [x] else tl h @ [x]) \<and>
     length (history_append h x) \<le> 50 \<and>
     history_append_all [] xs = drop (length xs - 50) xs \<and>
     (length xs = 51 \<longrightarrow> history_append_all [] xs = tl xs \<and>
        length (history_append_all [] xs) = 50)"
proof (intro conjI impI)
  assume h: "length h \<le> 50"
  show "history_append h x = (if length h < 50 then h @ [x] else tl h @ [x])"
    using h by (simp add: history_append_def history_maxlen_def deque_append_bounded)
  show "length (history_append h x) \<le> 50"
    using h deque_append_length [of h 50 x] by (simp add: history_append_def history_maxlen_def)
  have all: "history_append_all [] xs = drop (length xs - 50) xs"
    using history_append_all_drop [of "[]" xs] by (simp add: history_maxlen_def)
  show "history_append_all [] xs = drop (length xs - 50) xs" by (rule all)
  assume "length xs = 51"
  then show "history_append_all [] xs = tl xs" "length (history_append_all [] xs) = 50"
    by (simp_all add: all drop_Suc)
qed

theorem history_fifo_witness:
  "length [1 ..< 51 :: nat] \<le> 50 \<and> length [0 ..< 51 :: nat] = 51 \<and>
   history_append [1 ..< 51] (51 :: nat) = tl [1 ..< 51] @ [51] \<and>
   history_append_all [] [0 ..< 51 :: nat] = tl [0 ..< 51] \<and>
   length (history_append_all [] [0 ..< 51 :: nat]) = 50"
  using history_fifo [of "[1 ..< 51 :: nat]" 51 "[0 ..< 51 :: nat]"]
  by simp

subsection \<open>Percentiles\<close>

lemma index95_exact:
  assumes "0 < count" "count < 2 ^ 44"
  shows "percentile_index count (fl (95 / 100)) = \<lfloor>(of_nat count :: rat) * (95 / 100)\<rfloor>"
proof -
  have "percentile_index count (4278419646001971 / 2 ^ 52) = int (count * 95 div 100)"
    using assms by (rule index_exact [where \<delta> = "1 / (5 * 2 ^ 52)"]) simp_all
  moreover have "\<lfloor>(of_nat count :: rat) * (95 / 100)\<rfloor> = int (count * 95 div 100)"
  proof -
    have "(of_nat count :: rat) * (95 / 100) = of_nat (count * 95) / of_nat 100"
      by simp
    then show ?thesis
      by (simp only: floor_divide_of_nat_eq)
  qed
  ultimately show ?thesis
    by (simp only: double_0_95)
qed

lemma index99_exact:
  assumes "0 < count" "count < 2 ^ 44"
  shows "percentile_index count (fl (99 / 100)) = \<lfloor>(of_nat count :: rat) * (99 / 100)\<rfloor>"
proof -
  have "percentile_index count (4458563631096791 / 2 ^ 52) = int (count * 99 div 100)"
    using assms by (rule index_exact [where \<delta> = "1 / (25 * 2 ^ 52)"]) simp_all
  moreover have "\<lfloor>(of_nat count :: rat) * (99 / 100)\<rfloor> = int (count * 99 div 100)"
  proof -
    have "(of_nat count :: rat) * (99 / 100) = of_nat (count * 99) / of_nat 100"
      by simp
    then show ?thesis
      by (simp only: floor_divide_of_nat_eq)
  qed
  ultimately show ?thesis
    by (simp only: double_0_99)
qed

lemma py_index_in_range:
  "0 \<le> i \<Longrightarrow> i < int (length xs) \<Longrightarrow> py_index xs i = Inr (xs ! nat i)"
  by (simp add: py_index_def)

lemma p95_value:
  assumes "response_times r \<noteq> []"
  shows "p95_response_time r =
    Inr (sort (response_times r) !
      nat (percentile_index (length (response_times r)) (fl (95 / 100))))"
proof -
  have "0 < length (response_times r)" using assms by simp
  from index95_bounds [OF this] show ?thesis
    using assms
    by (simp add: p95_response_time_def Let_def percentile_index_def [symmetric]
          py_index_in_range)
qed

lemma p99_value:
  assumes "response_times r \<noteq> []"
  shows "p99_response_time r =
    Inr (sort (response_times r) !
      nat (percentile_index (length (response_times r)) (fl (99 / 100))))"
proof -
  have "0 < length (response_times r)" using assms by simp
  from index99_bounds [OF this] show ?thesis
    using assms
    by (simp add: p99_response_time_def Let_def percentile_index_def [symmetric]
          py_index_in_range)
qed

text \<open>
  Claim C2. The 95th and 99th percentiles are nearest-rank percentiles without
  interpolation: the latencies are sorted ascending and the item at index
  \<open>floor (count * p)\<close> is returned, and the result is 0 for the empty sequence. The
  index computed in binary64 is that floor for every list of fewer than \<open>2 ^ 44\<close>
  items (more than an address space of 47 bits can hold). For the latencies
  10, 20, 30, 40, 50 both indices are 4 and both percentiles are 50.
\<close>

theorem percentile_nearest_rank:
  "(response_times r = [] \<longrightarrow> p95_response_time r = Inr 0 \<and> p99_response_time r = Inr 0) \<and>
   (response_times r \<noteq> [] \<and> length (response_times r) < 2 ^ 44 \<longrightarrow>
      p95_response_time r =
        Inr (sort (response_times r) !
          nat \<lfloor>(of_nat (length (response_times r)) :: rat) * (95 / 100)\<rfloor>) \<and>
      p99_response_time r =
        Inr (sort (response_times r) !
          nat \<lfloor>(of_nat (length (response_times r)) :: rat) * (99 / 100)\<rfloor>)) \<and>
   (response_times r = [10, 20, 30, 40, 50] \<longrightarrow>
      nat \<lfloor>(of_nat (length (response_times r)) :: rat) * (95 / 100)\<rfloor> = 4 \<and>
      nat \<lfloor>(of_nat (length (response_times r)) :: rat) * (99 / 100)\<rfloor> = 4 \<and>
      p95_response_time r = Inr 50 \<and> p99_response_time r = Inr 50)"
proof (intro conjI impI)
  show "p95_response_time r = Inr 0" if "response_times r = []"
    using that by (simp add: p95_response_time_def)
  show "p99_response_time r = Inr 0" if "response_times r = []"
    using that by (simp add: p99_response_time_def)
next
  assume a: "response_times r \<noteq> [] \<and> length (response_times r) < 2 ^ 44"
  then have ne: "response_times r \<noteq> []"
    and pos: "0 < length (response_times r)" "length (response_times r) < 2 ^ 44"
    by simp_all
  show "p95_response_time r =
        Inr (sort (response_times r) !
          nat \<lfloor>(of_nat (length (response_times r)) :: rat) * (95 / 100)\<rfloor>)"
    by (simp only: p95_value [OF ne] index95_exact [OF pos])
  show "p99_response_time r =
        Inr (sort (response_times r) !
          nat \<lfloor>(of_nat (length (response_times r)) :: rat) * (99 / 100)\<rfloor>)"
    by (simp only: p99_value [OF ne] index99_exact [OF pos])
next
  assume xs: "response_times r = [10, 20, 30, 40, 50]"
  have ne: "response_times r \<noteq> []" and len: "length (response_times r) = 5"
    by (simp_all add: xs)
  have pos: "0 < length (response_times r)" "length (response_times r) < 2 ^ 44"
    by (simp_all add: len)
  have f95: "\<lfloor>(of_nat (length (response_times r)) :: rat) * (95 / 100)\<rfloor> = 4"
    unfolding len by (simp add: floor_eq_iff)
  have f99: "\<lfloor>(of_nat (length (response_times r)) :: rat) * (99 / 100)\<rfloor> = 4"
    unfolding len by (simp add: floor_eq_iff)
  show "nat \<lfloor>(of_nat (length (response_times r)) :: rat) * (95 / 100)\<rfloor> = 4"
    by (simp only: f95 nat_numeral)
  show "nat \<lfloor>(of_nat (length (response_times r)) :: rat) * (99 / 100)\<rfloor> = 4"
    by (simp only: f99 nat_numeral)
  have "p95_response_time r = Inr (sort (response_times r) ! nat 4)"
    by (simp only: p95_value [OF ne] index95_exact [OF pos] f95)
  then show "p95_response_time r = Inr 50"
    by (simp add: xs)
  have "p99_response_time r = Inr (sort (response_times r) ! nat 4)"
    by (simp only: p99_value [OF ne] index99_exact [OF pos] f99)
  then show "p99_response_time r = Inr 50"
    by (simp add: xs)
qed

theorem percentile_nearest_rank_witness:
  "p95_response_time (new_LoadTestResult\<lparr>response_times := [50, 10, 40, 20, 30]\<rparr>) = Inr 50 \<and>
   p99_response_time (new_LoadTestResult\<lparr>response_times := [50, 10, 40, 20, 30]\<rparr>) = Inr 50 \<and>
   p95_response_time (new_LoadTestResult\<lparr>response_times := [10, 20, 30, 40, 50]\<rparr>) = Inr 50 \<and>
   p95_response_time new_LoadTestResult = Inr 0"
  using percentile_nearest_rank [of "new_LoadTestResult\<lparr>response_times := [50, 10, 40, 20, 30]\<rparr>"]
    percentile_nearest_rank [of "new_LoadTestResult\<lparr>response_times := [10, 20, 30, 40, 50]\<rparr>"]
    percentile_nearest_rank [of new_LoadTestResult]
  by (simp add: new_LoadTestResult_def floor_eq_iff)

lemma fl_below:
  assumes "0 < x" "1 \<le> b" "x \<le> b * (1 - 1 / 2 ^ 53)"
  shows "fl x < b"
proof -
  define m where "m = max (ilog2 x) (- 1022)"
  have x0: "x \<noteq> 0" and xabs: "\<bar>x\<bar> = x" using assms(1) by simp_all
  have xb: "x < b"
  proof -
    have "b * (1 - 1 / 2 ^ 53) < b * 1"
      using assms(2) by (intro mult_strict_left_mono) simp_all
    with assms(3) show ?thesis by simp
  qed
  have u: "ulp x = 2 powi (m - 52)"
    by (simp add: ulp_def ulp_exponent_def m_def xabs)
  have "(2::rat) powi ilog2 x < b"
    using ilog2_bounds [OF assms(1)] xb by simp
  moreover have "(2::rat) powi (- 1022) < b"
  proof -
    have "(2::rat) powi (- 1022) < 2 powi 0"
      by (subst pow2_less_iff) simp
    with assms(2) show ?thesis by simp
  qed
  ultimately have mb: "2 powi m < b"
    by (simp add: m_def max_def)
  have "ulp x * 2 ^ 52 = 2 powi (m - 52) * 2 powi 52"
    by (simp only: u power_int_numeral)
  also have "\<dots> = 2 powi m"
    by (subst power_int_add [symmetric]) simp_all
  finally have "ulp x * 2 ^ 52 < b"
    using mb by simp
  then have "ulp x / 2 < b / 2 ^ 53"
    by (simp add: field_simps)
  moreover have "b / 2 ^ 53 \<le> b - x"
    using assms(3) by (simp add: algebra_simps)
  moreover have "fl x - x \<le> ulp x / 2"
    using fl_error [OF x0] by (simp only: abs_le_iff)
  ultimately show ?thesis by linarith
qed

lemma double_below_one:
  assumes "is_double p" "0 < p" "p < 1"
  shows "p \<le> 1 - 1 / 2 ^ 53"
proof (cases "1 / 2 \<le> p")
  case False
  then show ?thesis by simp
next
  case True
  have pabs: "\<bar>p\<bar> = p" and p0: "p \<noteq> 0" using assms(2) by simp_all
  have "ilog2 p = - 1"
    using True assms(3) by (intro ilog2_unique) simp_all
  moreover have "2 powi (- 1022) \<le> \<bar>p\<bar>"
    using True by (intro normal_ge_half) simp
  ultimately have u: "ulp p = 2 powi (- 53)"
    using ulp_normal(1) [of p] by (simp add: pabs)
  then have u': "ulp p = 1 / 2 ^ 53"
    by (simp add: power_int_minus_divide)
  define k where "k = round_half_even (p / ulp p)"
  have pk: "p = of_int k * ulp p"
    using assms(1) p0 by (simp add: is_double_def fl_ulp k_def)
  have "of_int k * ulp p < 1"
    using assms(3) pk by simp
  then have "(of_int k :: rat) < of_int (2 ^ 53)"
    by (simp add: u')
  then have "k < 2 ^ 53"
    by (simp only: of_int_less_iff)
  then have "k \<le> 2 ^ 53 - 1" by simp
  then have "(of_int k :: rat) \<le> of_int (2 ^ 53 - 1)"
    by (simp only: of_int_le_iff)
  then have "of_int k * ulp p \<le> of_int (2 ^ 53 - 1) * ulp p"
    by (intro mult_right_mono) simp_all
  also have "\<dots> = 1 - 1 / 2 ^ 53"
    by (simp add: u')
  finally show ?thesis
    using pk by simp
qed

lemma percentile_index_below:
  assumes "0 < count" "count < 2 ^ 53" "is_double p" "0 < p" "p < 1"
  shows "0 \<le> percentile_index count p" "percentile_index count p < int count"
proof -
  have a: "float_of_int (int count) = of_nat count"
  proof -
    have "\<bar>int count\<bar> < 2 ^ 53" using assms(2) by simp
    then have "fl (of_int (int count)) = of_int (int count)"
      by (rule fl_of_int)
    then show ?thesis by (simp add: float_of_int_def)
  qed
  define x where "x = of_nat count * p"
  have x: "0 < x" using assms(1,4) by (simp add: x_def)
  have "x \<le> of_nat count * (1 - 1 / 2 ^ 53)"
    unfolding x_def using double_below_one [OF assms(3-5)]
    by (intro mult_left_mono) simp_all
  with x have lt: "fl x < of_nat count"
    using assms(1) by (intro fl_below) simp_all
  have nn: "0 \<le> fl x"
    using x by (intro fl_nonneg) simp
  have idx: "percentile_index count p = \<lfloor>fl x\<rfloor>"
    using nn by (simp add: percentile_index_def int_of_float_def float_mul_def a x_def)
  show "0 \<le> percentile_index count p"
    using nn by (simp add: idx)
  have "fl x < of_int (int count)" using lt by simp
  then show "percentile_index count p < int count"
    unfolding idx by (simp only: floor_less_iff)
qed

lemma floor_percentile_below:
  fixes p :: rat
  assumes "0 < count" "0 < p" "p < 1"
  shows "0 \<le> \<lfloor>of_nat count * p\<rfloor>" "\<lfloor>of_nat count * p\<rfloor> < int count"
proof -
  show "0 \<le> \<lfloor>of_nat count * p\<rfloor>"
    using assms by simp
  have "of_nat count * p < of_nat count * 1"
    using assms by (intro mult_strict_left_mono) simp_all
  then have "of_nat count * p < of_int (int count)" by simp
  then show "\<lfloor>of_nat count * p\<rfloor> < int count"
    by (simp only: floor_less_iff)
qed

lemma p95_member:
  assumes "response_times r \<noteq> []"
  shows "\<exists>v \<in> set (response_times r). p95_response_time r = Inr v"
proof -
  let ?i = "nat (percentile_index (length (response_times r)) (fl (95 / 100)))"
  have "0 < length (response_times r)" using assms by simp
  from index95_bounds [OF this] have "?i < length (sort (response_times r))"
    by (simp add: nat_less_iff)
  then have "sort (response_times r) ! ?i \<in> set (sort (response_times r))"
    by (rule nth_mem)
  then show ?thesis
    by (simp add: p95_value [OF assms])
qed

lemma p99_member:
  assumes "response_times r \<noteq> []"
  shows "\<exists>v \<in> set (response_times r). p99_response_time r = Inr v"
proof -
  let ?i = "nat (percentile_index (length (response_times r)) (fl (99 / 100)))"
  have "0 < length (response_times r)" using assms by simp
  from index99_bounds [OF this] have "?i < length (sort (response_times r))"
    by (simp add: nat_less_iff)
  then have "sort (response_times r) ! ?i \<in> set (sort (response_times r))"
    by (rule nth_mem)
  then show ?thesis
    by (simp add: p99_value [OF assms])
qed

text \<open>
  Claim C9. For a non-empty latency sequence of length \<open>count\<close> and every \<open>p\<close>
  strictly between 0 and 1, the percentile index \<open>floor (count * p)\<close> is less than
  \<open>count\<close>: in exact arithmetic, in binary64 for every double \<open>p\<close> (and a count
  below \<open>2 ^ 53\<close>, which converts to a float exactly), and for the two literals 0.95 and
  0.99 of the source at every count. So the indexing of \<^verbatim>\<open>p95_response_time\<close> and
  \<^verbatim>\<open>p99_response_time\<close> is in bounds: both return an item of the sequence and do
  not raise.
\<close>

theorem percentile_index_in_bounds:
  assumes "response_times r \<noteq> []" and "count = length (response_times r)"
  shows "(0 < p \<and> p < 1 \<longrightarrow>
            0 \<le> \<lfloor>of_nat count * p\<rfloor> \<and> \<lfloor>of_nat count * p\<rfloor> < int count) \<and>
         (is_double p \<and> 0 < p \<and> p < 1 \<and> count < 2 ^ 53 \<longrightarrow>
            0 \<le> percentile_index count p \<and> percentile_index count p < int count) \<and>
         0 \<le> percentile_index count (fl (95 / 100)) \<and>
         percentile_index count (fl (95 / 100)) < int count \<and>
         0 \<le> percentile_index count (fl (99 / 100)) \<and>
         percentile_index count (fl (99 / 100)) < int count \<and>
         (\<exists>v \<in> set (response_times r). p95_response_time r = Inr v) \<and>
         (\<exists>v \<in> set (response_times r). p99_response_time r = Inr v)"
proof -
  have pos: "0 < count" using assms by simp
  show ?thesis
    using floor_percentile_below [OF pos, of p] percentile_index_below [OF pos, of p]
      index95_bounds [OF pos] index99_bounds [OF pos]
      p95_member [OF assms(1)] p99_member [OF assms(1)]
    by blast
qed

theorem percentile_index_in_bounds_witness:
  "is_double (3 / 4) \<and>
   \<lfloor>of_nat 5 * (3 / 4 :: rat)\<rfloor> < 5 \<and>
   percentile_index 5 (3 / 4) < 5 \<and>
   percentile_index 5 (fl (95 / 100)) < 5 \<and>
   percentile_index 5 (fl (99 / 100)) < 5 \<and>
   p95_response_time (new_LoadTestResult\<lparr>response_times := [7, 3, 9, 1, 5]\<rparr>)
     \<in> Inr ` {7, 3, 9, 1, 5} \<and>
   p99_response_time (new_LoadTestResult\<lparr>response_times := [7, 3, 9, 1, 5]\<rparr>)
     \<in> Inr ` {7, 3, 9, 1, 5}"
proof -
  have "fl (3 / 4) = 3 / 4"
    by code_simp
  then have d: "is_double (3 / 4)"
    by (rule is_doubleI) simp
  show ?thesis
    using d percentile_index_in_bounds
      [of "new_LoadTestResult\<lparr>response_times := [7, 3, 9, 1, 5]\<rparr>" 5 "3 / 4"]
    by auto
qed

subsection \<open>Order of the response-time metrics\<close>

lemma exact_sum_foldl:
  "exact_sum acc xs \<Longrightarrow> foldl float_add acc xs = acc + sum_list xs"
  by (induction xs arbitrary: acc) (simp_all add: float_add_def is_double_def add.assoc)

lemma py_sum_exact: "exact_sum 0 xs \<Longrightarrow> py_sum xs = sum_list xs"
  using exact_sum_foldl [of 0 xs] by (simp add: py_sum_def)

lemma py_min_Min: "xs \<noteq> [] \<Longrightarrow> py_min xs = Inr (Min (set xs))"
proof (cases xs)
  case (Cons y ys)
  then show ?thesis
    using Min.set_eq_fold [of y ys] by (simp add: py_min_def)
qed simp

lemma py_max_Max: "xs \<noteq> [] \<Longrightarrow> py_max xs = Inr (Max (set xs))"
proof (cases xs)
  case (Cons y ys)
  then show ?thesis
    using Max.set_eq_fold [of y ys] by (simp add: py_max_def)
qed simp

lemma sum_list_lower:
  fixes xs :: "rat list"
  shows "\<forall>x \<in> set xs. m \<le> x \<Longrightarrow> of_nat (length xs) * m \<le> sum_list xs"
  by (induction xs) (simp_all add: algebra_simps add_mono)

lemma sum_list_upper:
  fixes xs :: "rat list"
  shows "\<forall>x \<in> set xs. x \<le> m \<Longrightarrow> sum_list xs \<le> of_nat (length xs) * m"
  by (induction xs) (simp_all add: algebra_simps add_mono)

lemma mean_between:
  fixes xs :: "rat list"
  assumes "xs \<noteq> []"
  shows "Min (set xs) \<le> sum_list xs / of_nat (length xs)"
    "sum_list xs / of_nat (length xs) \<le> Max (set xs)"
proof -
  have n: "(0::rat) < of_nat (length xs)" using assms by simp
  have "of_nat (length xs) * Min (set xs) \<le> sum_list xs"
    by (rule sum_list_lower) simp
  then show "Min (set xs) \<le> sum_list xs / of_nat (length xs)"
    using n by (simp add: le_divide_eq mult.commute)
  have "sum_list xs \<le> of_nat (length xs) * Max (set xs)"
    by (rule sum_list_upper) simp
  then show "sum_list xs / of_nat (length xs) \<le> Max (set xs)"
    using n by (simp add: divide_le_eq mult.commute)
qed

lemma float_of_int_length_nonzero:
  "xs \<noteq> [] \<Longrightarrow> float_of_int (int (length xs)) \<noteq> 0"
  using float_of_int_bounds(1) [of "int (length xs)"] by auto

lemma avg_value:
  assumes "response_times r \<noteq> []"
  shows "avg_response_time r =
    Inr (fl (py_sum (response_times r) / float_of_int (int (length (response_times r)))))"
  using assms float_of_int_length_nonzero [OF assms]
  by (simp add: avg_response_time_def float_truediv_def)

lemma float_of_nat_exact:
  "n < 2 ^ 53 \<Longrightarrow> float_of_int (int n) = of_nat n"
proof -
  assume "n < 2 ^ 53"
  then have "\<bar>int n\<bar> < 2 ^ 53" by simp
  then have "fl (of_int (int n)) = of_int (int n)"
    by (rule fl_of_int)
  then show ?thesis by (simp add: float_of_int_def)
qed

lemma avg_between:
  assumes ne: "response_times r \<noteq> []"
    and dbl: "\<forall>x \<in> set (response_times r). is_double x"
    and ex: "exact_sum 0 (response_times r)"
    and len: "length (response_times r) < 2 ^ 53"
  shows "avg_response_time r =
           Inr (fl (sum_list (response_times r) / of_nat (length (response_times r))))"
    "Min (set (response_times r)) \<le>
       fl (sum_list (response_times r) / of_nat (length (response_times r)))"
    "fl (sum_list (response_times r) / of_nat (length (response_times r))) \<le>
       Max (set (response_times r))"
proof -
  let ?xs = "response_times r"
  let ?q = "sum_list ?xs / of_nat (length ?xs)"
  show "avg_response_time r = Inr (fl ?q)"
    by (simp add: avg_value [OF ne] py_sum_exact [OF ex] float_of_nat_exact [OF len])
  have "Min (set ?xs) \<in> set ?xs" "Max (set ?xs) \<in> set ?xs"
    using ne by (simp_all add: Min_in Max_in)
  then have mn: "fl (Min (set ?xs)) = Min (set ?xs)" and mx: "fl (Max (set ?xs)) = Max (set ?xs)"
    using dbl by (simp_all add: is_double_def)
  have "fl (Min (set ?xs)) \<le> fl ?q"
    using mean_between(1) [OF ne] by (rule fl_mono)
  then show "Min (set ?xs) \<le> fl ?q" by (simp only: mn)
  have "fl ?q \<le> fl (Max (set ?xs))"
    using mean_between(2) [OF ne] by (rule fl_mono)
  then show "fl ?q \<le> Max (set ?xs)" by (simp only: mx)
qed

lemma percentile_index_mono:
  assumes "0 < count" "0 \<le> p" "p \<le> q"
  shows "percentile_index count p \<le> percentile_index count q"
proof -
  define a where "a = float_of_int (int count)"
  have a: "0 \<le> a"
    using float_of_int_bounds(1) [of "int count"] assms(1) by (simp add: a_def)
  have "a * p \<le> a * q"
    using a assms(3) by (rule mult_left_mono [rotated])
  then have le: "fl (a * p) \<le> fl (a * q)" by (rule fl_mono)
  have "0 \<le> a * p" using a assms(2) by simp
  then have p0: "0 \<le> fl (a * p)" by (rule fl_nonneg)
  with le have q0: "0 \<le> fl (a * q)" by simp
  show ?thesis
    using le p0 q0
    by (simp add: percentile_index_def float_mul_def int_of_float_def a_def [symmetric] floor_mono)
qed

lemma p95_le_p99:
  assumes "response_times r \<noteq> []"
  shows "sort (response_times r) !
           nat (percentile_index (length (response_times r)) (fl (95 / 100))) \<le>
         sort (response_times r) !
           nat (percentile_index (length (response_times r)) (fl (99 / 100)))"
proof -
  let ?n = "length (response_times r)"
  have pos: "0 < ?n" using assms by simp
  have "fl 0 \<le> fl (95 / 100)" by (rule fl_mono) simp
  then have p0: "0 \<le> fl (95 / 100)" by simp
  have pq: "fl (95 / 100) \<le> fl (99 / 100)" by (rule fl_mono) simp
  have "percentile_index ?n (fl (95 / 100)) \<le> percentile_index ?n (fl (99 / 100))"
    using pos p0 pq by (rule percentile_index_mono)
  then have "nat (percentile_index ?n (fl (95 / 100))) \<le>
      nat (percentile_index ?n (fl (99 / 100)))"
    by simp
  moreover have "nat (percentile_index ?n (fl (99 / 100))) < length (sort (response_times r))"
    using index99_bounds [OF pos] by (simp add: nat_less_iff)
  ultimately show ?thesis
    by (intro sorted_nth_mono) simp_all
qed

lemma double_0_1: "fl (1 / 10) = 3602879701896397 / 2 ^ 55"
  by code_simp

lemma double_0_1_fixed: "fl (3602879701896397 / 2 ^ 55) = 3602879701896397 / 2 ^ 55"
  by code_simp

lemma compensated_sum_agrees:
  "py_sum_compensated [3602879701896397 / 2 ^ 55, 3602879701896397 / 2 ^ 55,
      3602879701896397 / 2 ^ 55] =
   py_sum [3602879701896397 / 2 ^ 55, 3602879701896397 / 2 ^ 55, 3602879701896397 / 2 ^ 55]"
  by code_simp

lemma avg_three_tenths:
  "avg_response_time (new_LoadTestResult\<lparr>response_times :=
      [3602879701896397 / 2 ^ 55, 3602879701896397 / 2 ^ 55, 3602879701896397 / 2 ^ 55]\<rparr>) =
     Inr (7205759403792795 / 2 ^ 56)"
  by code_simp

text \<open>
  Claim C3, as stated, fails for the mean: three requests that each took 0.1 ms (the
  double nearest to 1/10) have the sum 0.30000000000000004 and the mean
  0.10000000000000002, which is above the maximum 0.1.
\<close>

theorem mean_above_max_counterexample:
  "is_double (3602879701896397 / 2 ^ 55) \<and>
   max_response_time (new_LoadTestResult\<lparr>response_times :=
      [3602879701896397 / 2 ^ 55, 3602879701896397 / 2 ^ 55, 3602879701896397 / 2 ^ 55]\<rparr>) =
     Inr (3602879701896397 / 2 ^ 55) \<and>
   avg_response_time (new_LoadTestResult\<lparr>response_times :=
      [3602879701896397 / 2 ^ 55, 3602879701896397 / 2 ^ 55, 3602879701896397 / 2 ^ 55]\<rparr>) =
     Inr (7205759403792795 / 2 ^ 56) \<and>
   (3602879701896397 / 2 ^ 55 :: rat) < 7205759403792795 / 2 ^ 56"
proof (intro conjI)
  show "is_double (3602879701896397 / 2 ^ 55)"
    by (rule is_doubleI) (simp_all only: double_0_1_fixed, simp)
  show "max_response_time (new_LoadTestResult\<lparr>response_times :=
      [3602879701896397 / 2 ^ 55, 3602879701896397 / 2 ^ 55, 3602879701896397 / 2 ^ 55]\<rparr>) =
     Inr (3602879701896397 / 2 ^ 55)"
    by (simp add: max_response_time_def py_max_def)
  show "avg_response_time (new_LoadTestResult\<lparr>response_times :=
      [3602879701896397 / 2 ^ 55, 3602879701896397 / 2 ^ 55, 3602879701896397 / 2 ^ 55]\<rparr>) =
     Inr (7205759403792795 / 2 ^ 56)"
    by (rule avg_three_tenths)
  show "(3602879701896397 / 2 ^ 55 :: rat) < 7205759403792795 / 2 ^ 56"
    by simp
qed

text \<open>
  Claim C3, amended. For every non-empty latency sequence the minimum is at most the
  maximum, both percentiles lie between them, and p95 is at most p99. The mean lies
  between minimum and maximum whenever the latencies are doubles, no addition of the
  summation rounds and the count is below \<open>2 ^ 53\<close>: the mean is then the exact
  quotient rounded once, and rounding is monotone.
\<close>

theorem response_time_order:
  assumes "response_times r \<noteq> []"
  shows "\<exists>mn mx a p95 p99.
      min_response_time r = Inr mn \<and> max_response_time r = Inr mx \<and>
      avg_response_time r = Inr a \<and>
      p95_response_time r = Inr p95 \<and> p99_response_time r = Inr p99 \<and>
      mn \<le> mx \<and> mn \<le> p95 \<and> p95 \<le> p99 \<and> p99 \<le> mx \<and>
      ((\<forall>x \<in> set (response_times r). is_double x) \<and> exact_sum 0 (response_times r) \<and>
         length (response_times r) < 2 ^ 53 \<longrightarrow> mn \<le> a \<and> a \<le> mx)"
proof -
  let ?xs = "response_times r"
  let ?i95 = "nat (percentile_index (length ?xs) (fl (95 / 100)))"
  let ?i99 = "nat (percentile_index (length ?xs) (fl (99 / 100)))"
  have pos: "0 < length ?xs" using assms by simp
  have mn: "min_response_time r = Inr (Min (set ?xs))"
    using assms by (simp add: min_response_time_def py_min_Min)
  have mx: "max_response_time r = Inr (Max (set ?xs))"
    using assms by (simp add: max_response_time_def py_max_Max)
  have i95: "?i95 < length (sort ?xs)" and i99: "?i99 < length (sort ?xs)"
    using index95_bounds [OF pos] index99_bounds [OF pos] by (simp_all add: nat_less_iff)
  have "sort ?xs ! ?i95 \<in> set (sort ?xs)" "sort ?xs ! ?i99 \<in> set (sort ?xs)"
    using i95 i99 by (simp_all only: nth_mem)
  then have mem: "sort ?xs ! ?i95 \<in> set ?xs" "sort ?xs ! ?i99 \<in> set ?xs"
    by simp_all
  have lo: "Min (set ?xs) \<le> sort ?xs ! ?i95"
    using mem(1) by (intro Min_le) simp_all
  have hi: "sort ?xs ! ?i99 \<le> Max (set ?xs)"
    using mem(2) by (intro Max_ge) simp_all
  have mid: "sort ?xs ! ?i95 \<le> sort ?xs ! ?i99"
    using assms by (rule p95_le_p99)
  have mm: "Min (set ?xs) \<le> Max (set ?xs)"
    using lo mid hi by linarith
  have avg: "(\<forall>x \<in> set ?xs. is_double x) \<and> exact_sum 0 ?xs \<and> length ?xs < 2 ^ 53 \<longrightarrow>
      Min (set ?xs) \<le> fl (py_sum ?xs / float_of_int (int (length ?xs))) \<and>
      fl (py_sum ?xs / float_of_int (int (length ?xs))) \<le> Max (set ?xs)"
  proof (intro impI, elim conjE)
    assume a: "\<forall>x \<in> set ?xs. is_double x" "exact_sum 0 ?xs" "length ?xs < 2 ^ 53"
    show "Min (set ?xs) \<le> fl (py_sum ?xs / float_of_int (int (length ?xs))) \<and>
      fl (py_sum ?xs / float_of_int (int (length ?xs))) \<le> Max (set ?xs)"
      using avg_between(2,3) [OF assms a]
      by (simp only: py_sum_exact [OF a(2)] float_of_nat_exact [OF a(3)] simp_thms)
  qed
  show ?thesis
    using mn mx avg_value [OF assms] p95_value [OF assms] p99_value [OF assms]
      mm lo mid hi avg
    by blast
qed

theorem response_time_order_witness:
  "is_double 30 \<and> is_double 10 \<and> is_double 50 \<and> is_double 20 \<and> is_double 40 \<and>
   exact_sum 0 [30, 10, 50, 20, 40] \<and>
   min_response_time (new_LoadTestResult\<lparr>response_times := [30, 10, 50, 20, 40]\<rparr>) = Inr 10 \<and>
   max_response_time (new_LoadTestResult\<lparr>response_times := [30, 10, 50, 20, 40]\<rparr>) = Inr 50 \<and>
   (\<exists>a. avg_response_time (new_LoadTestResult\<lparr>response_times := [30, 10, 50, 20, 40]\<rparr>) = Inr a
      \<and> 10 \<le> a \<and> a \<le> 50)"
proof -
  let ?r = "new_LoadTestResult\<lparr>response_times := [30, 10, 50, 20, 40]\<rparr>"
  have d: "\<forall>x \<in> set [30, 10, 50, 20, 40 :: rat]. is_double x"
    by (simp add: is_double_numeral)
  have e: "exact_sum 0 [30, 10, 50, 20, 40]"
    by (simp add: is_double_numeral)
  have mn: "min_response_time ?r = Inr 10" and mx: "max_response_time ?r = Inr 50"
    by (simp_all add: min_response_time_def max_response_time_def py_min_def py_max_def)
  from response_time_order [of ?r] d e mn mx show ?thesis
    by auto
qed

subsection \<open>The compensated sum\<close>

text \<open>
  When no addition rounds, the compensation term of the compensated sum stays 0, so both
  summations return the exact sum.
\<close>

lemma neumaier_exact:
  "fl acc = acc \<Longrightarrow> \<forall>x \<in> set xs. is_double x \<Longrightarrow> exact_sum acc xs \<Longrightarrow>
     neumaier (acc, 0) xs = (acc + sum_list xs, 0)"
proof (induction xs arbitrary: acc)
  case Nil
  show ?case by simp
next
  case (Cons x xs)
  have x: "fl x = x" and t: "fl (acc + x) = acc + x"
    using Cons.prems(2,3) by (simp_all add: is_double_def)
  have nx: "fl (- x) = - x" and nacc: "fl (- acc) = - acc"
    using x Cons.prems(1) by (simp_all add: fl_minus)
  have step: "neumaier (acc, 0) (x # xs) = neumaier (acc + x, 0) xs"
    by (simp add: float_add_def t nx nacc Let_def)
  have "neumaier (acc + x, 0) xs = (acc + x + sum_list xs, 0)"
    using t Cons.prems(2,3) by (intro Cons.IH) simp_all
  with step show ?case by (simp add: add.assoc)
qed

lemma py_sum_compensated_exact:
  "\<forall>x \<in> set xs. is_double x \<Longrightarrow> exact_sum 0 xs \<Longrightarrow> py_sum_compensated xs = sum_list xs"
  using neumaier_exact [of 0 xs] by (simp add: py_sum_compensated_def)

subsection \<open>Latencies on a binary grid\<close>

text \<open>
  Elapsed times measured on a clock of binary resolution are multiples of some
  \<open>1 / 2 ^ g\<close>. Such numbers are doubles as long as the multiple is below \<open>2 ^ 53\<close>,
  and their sums are exact as long as the total stays below that bound.
\<close>

lemma fl_dyadic:
  assumes "k < 2 ^ 53" "g \<le> 1022"
  shows "fl (of_nat k / 2 ^ g) = of_nat k / 2 ^ g"
proof (cases "k = 0")
  case True
  then show ?thesis by simp
next
  case False
  define x :: rat where "x = of_nat k / 2 ^ g"
  have xpos: "0 < x" using False by (simp add: x_def)
  then have x0: "x \<noteq> 0" and xabs: "\<bar>x\<bar> = x" by simp_all
  define m where "m = max (ilog2 x) (- 1022)"
  have u: "ulp x = 2 powi (m - 52)"
    by (simp add: ulp_def ulp_exponent_def m_def xabs)
  have g: "(1::rat) / 2 ^ g = 2 powi (- int g)"
    by (simp add: power_int_minus_divide)
  have "(of_nat k :: rat) < of_nat (2 ^ 53)"
    using assms(1) by (simp only: of_nat_less_iff)
  then have "(of_nat k :: rat) < 2 powi 53" by simp
  then have "x < 2 powi 53 * 2 powi (- int g)"
    unfolding x_def g [symmetric] by (simp add: divide_strict_right_mono)
  also have "\<dots> = 2 powi (53 - int g)"
    by (subst power_int_add [symmetric]) simp_all
  finally have "(2::rat) powi ilog2 x < 2 powi (53 - int g)"
    using ilog2_bounds [OF xpos] by simp
  then have "ilog2 x < 53 - int g" by (simp only: pow2_less_iff)
  then have m: "m \<le> 52 - int g"
    using assms(2) by (simp add: m_def)
  define d where "d = nat (52 - int g - m)"
  have "(2::rat) ^ d * ulp x = 2 powi (int d) * 2 powi (m - 52)"
    by (simp add: u)
  also have "\<dots> = 2 powi (int d + (m - 52))"
    by (subst power_int_add) simp_all
  also have "int d + (m - 52) = - int g"
    using m by (simp add: d_def)
  finally have grid: "2 ^ d * ulp x = 1 / 2 ^ g"
    by (simp only: g)
  have "of_int (int k * 2 ^ d) * ulp x = of_nat k * (2 ^ d * ulp x)"
    by simp
  also have "\<dots> = of_nat k * (1 / 2 ^ g)"
    by (simp only: grid)
  also have "\<dots> = x"
    by (simp add: x_def)
  finally have "x = of_int (int k * 2 ^ d) * ulp x" by (rule sym)
  with x0 have "fl x = x" by (rule fl_exact)
  then show ?thesis by (simp only: x_def)
qed

lemma is_double_dyadic:
  assumes "k < 2 ^ 53" "g \<le> 1022"
  shows "is_double (of_nat k / 2 ^ g)"
proof (rule is_doubleI)
  show "fl (of_nat k / 2 ^ g) = of_nat k / 2 ^ g"
    using assms by (rule fl_dyadic)
  have "(of_nat k :: rat) / 2 ^ g \<le> of_nat k / 1"
    by (intro divide_left_mono) simp_all
  moreover have "(of_nat k :: rat) < of_nat (2 ^ 53)"
    using assms(1) by (simp only: of_nat_less_iff)
  ultimately show "\<bar>of_nat k / 2 ^ g :: rat\<bar> < 2 ^ 53" by simp
qed

lemma exact_sum_grid:
  assumes "g \<le> 1022"
  shows "\<forall>x \<in> set xs. \<exists>k::nat. x = of_nat k / 2 ^ g \<Longrightarrow> acc = of_nat a / 2 ^ g \<Longrightarrow>
    (acc + sum_list xs) * 2 ^ g < 2 ^ 53 \<Longrightarrow> exact_sum acc xs"
proof (induction xs arbitrary: acc a)
  case Nil
  show ?case by simp
next
  case (Cons x xs)
  from Cons.prems(1) obtain k :: nat where k: "x = of_nat k / 2 ^ g" by auto
  have nonneg: "0 \<le> sum_list xs"
  proof (rule sum_list_nonneg)
    fix y assume "y \<in> set xs"
    with Cons.prems(1) obtain j :: nat where "y = of_nat j / 2 ^ g" by auto
    then show "0 \<le> y" by simp
  qed
  have acc': "acc + x = of_nat (a + k) / 2 ^ g"
    by (simp add: Cons.prems(2) k add_divide_distrib)
  have "(acc + x) * 2 ^ g \<le> (acc + x + sum_list xs) * 2 ^ g"
    using nonneg by (intro mult_right_mono) simp_all
  also have "\<dots> < 2 ^ 53"
    using Cons.prems(3) by (simp add: add.assoc)
  finally have "(of_nat (a + k) :: rat) < of_nat (2 ^ 53)"
    by (simp add: acc')
  then have "a + k < 2 ^ 53"
    by (simp only: of_nat_less_iff)
  then have d: "is_double (acc + x)"
    unfolding acc' using assms by (rule is_double_dyadic)
  have "exact_sum (acc + x) xs"
  proof (rule Cons.IH [OF _ acc'])
    show "\<forall>x \<in> set xs. \<exists>k::nat. x = of_nat k / 2 ^ g"
      using Cons.prems(1) by simp
    show "(acc + x + sum_list xs) * 2 ^ g < 2 ^ 53"
      using Cons.prems(3) by (simp add: add.assoc)
  qed
  with d show ?case by simp
qed

lemma avg_between_grid:
  assumes ne: "response_times r \<noteq> []" and g: "g \<le> 1022"
    and grid: "\<forall>x \<in> set (response_times r). \<exists>k::nat. x = of_nat k / 2 ^ g"
    and total: "sum_list (response_times r) * 2 ^ g < 2 ^ 53"
    and len: "length (response_times r) < 2 ^ 53"
  shows "\<exists>mn a mx. min_response_time r = Inr mn \<and> avg_response_time r = Inr a \<and>
    max_response_time r = Inr mx \<and> mn \<le> a \<and> a \<le> mx"
proof -
  let ?xs = "response_times r"
  have ex: "exact_sum 0 ?xs"
    using grid by (rule exact_sum_grid [OF g, where a = 0]) (use total in simp_all)
  have dbl: "\<forall>x \<in> set ?xs. is_double x"
  proof
    fix x assume x: "x \<in> set ?xs"
    with grid obtain k :: nat where k: "x = of_nat k / 2 ^ g" by auto
    have "x * 2 ^ g \<le> sum_list ?xs * 2 ^ g"
    proof (intro mult_right_mono member_le_sum_list x)
      fix y assume "y \<in> set ?xs"
      with grid obtain j :: nat where "y = of_nat j / 2 ^ g" by auto
      then show "0 \<le> y" by simp
    qed simp
    with total have "(of_nat k :: rat) < of_nat (2 ^ 53)"
      by (simp add: k)
    then have "k < 2 ^ 53" by (simp only: of_nat_less_iff)
    then show "is_double x"
      unfolding k using g by (rule is_double_dyadic)
  qed
  have mn: "min_response_time r = Inr (Min (set ?xs))"
    using ne by (simp add: min_response_time_def py_min_Min)
  have mx: "max_response_time r = Inr (Max (set ?xs))"
    using ne by (simp add: max_response_time_def py_max_Max)
  from avg_between [OF ne dbl ex len] mn mx show ?thesis by blast
qed

subsection \<open>Success rate and throughput\<close>

lemma fl_100 [simp]: "fl 100 = 100"
  using fl_of_int [of 100] by simp

lemma success_rate_value:
  assumes "0 < total_requests r"
  shows "success_rate r =
    Inr (fl (fl (of_int (successful_requests r) / of_int (total_requests r)) * 100))"
  using assms
  by (simp add: success_rate_def int_truediv_def py_bind_def float_mul_def float_of_int_def)

lemma success_rate_zero: "total_requests r \<le> 0 \<Longrightarrow> success_rate r = Inr 0"
  by (simp add: success_rate_def)

lemma fl_unit_interval:
  assumes "0 \<le> x" "x \<le> 1"
  shows "0 \<le> fl (fl x * 100)" "fl (fl x * 100) \<le> 100"
proof -
  have q0: "0 \<le> fl x" using assms(1) by (rule fl_nonneg)
  have "fl x \<le> fl 1" using assms(2) by (rule fl_mono)
  then have q1: "fl x \<le> 1" by simp
  have "0 \<le> fl x * 100" using q0 by simp
  then show "0 \<le> fl (fl x * 100)" by (rule fl_nonneg)
  have "fl x * 100 \<le> 100" using q1 by simp
  then have "fl (fl x * 100) \<le> fl 100" by (rule fl_mono)
  then show "fl (fl x * 100) \<le> 100" by simp
qed

text \<open>
  Claim C4. For every run result with \<open>0 \<le> successful_requests \<le> total_requests\<close>,
  the success rate \<open>successful_requests / total_requests * 100\<close> (each operation
  rounded to binary64) lies in [0, 100], and it is 0 when \<open>total_requests\<close> is 0.
\<close>

theorem success_rate_range:
  assumes "0 \<le> successful_requests r" "successful_requests r \<le> total_requests r"
  shows "\<exists>v. success_rate r = Inr v \<and> 0 \<le> v \<and> v \<le> 100 \<and>
           (total_requests r = 0 \<longrightarrow> v = 0) \<and>
           (0 < total_requests r \<longrightarrow>
              v = fl (fl (of_int (successful_requests r) / of_int (total_requests r)) * 100))"
proof (cases "0 < total_requests r")
  case True
  let ?x = "(of_int (successful_requests r) :: rat) / of_int (total_requests r)"
  have "0 \<le> ?x" "?x \<le> 1"
    using assms True by simp_all
  from fl_unit_interval [OF this] success_rate_value [OF True] True show ?thesis
    by auto
next
  case False
  then show ?thesis
    using assms by (simp add: success_rate_zero)
qed

theorem success_rate_range_witness:
  "success_rate (new_LoadTestResult\<lparr>total_requests := 8, successful_requests := 6\<rparr>) = Inr 75 \<and>
   success_rate new_LoadTestResult = Inr 0"
proof -
  have "fl (fl (6 / 8) * 100) = 75"
    by code_simp
  then show ?thesis
    using success_rate_range [of "new_LoadTestResult\<lparr>total_requests := 8, successful_requests := 6\<rparr>"]
      success_rate_range [of new_LoadTestResult]
    by (auto simp: new_LoadTestResult_def)
qed

lemma fl_two_power_minus_20: "fl (1 / 2 ^ 20) = 1 / 2 ^ 20"
  by code_simp

lemma total_seconds_pos: "0 < us \<Longrightarrow> 0 < total_seconds us"
proof -
  assume "0 < us"
  then have "(1::rat) \<le> of_int us" by simp
  then have "(1::rat) / 10 ^ 6 \<le> of_int us / 10 ^ 6"
    by (simp only: divide_right_mono zero_le_power zero_le_numeral)
  moreover have "(1::rat) / 2 ^ 20 \<le> 1 / 10 ^ 6" by simp
  ultimately have "(1::rat) / 2 ^ 20 \<le> of_int us / 10 ^ 6" by (rule order_trans [rotated])
  then have "fl (1 / 2 ^ 20) \<le> fl (of_int us / 10 ^ 6)" by (rule fl_mono)
  then have "1 / 2 ^ 20 \<le> total_seconds us"
    by (simp only: fl_two_power_minus_20 total_seconds_def)
  moreover have "(0::rat) < 1 / 2 ^ 20" by simp
  ultimately show ?thesis by (rule less_le_trans [rotated])
qed

lemma total_seconds_nonpos: "us \<le> 0 \<Longrightarrow> total_seconds us \<le> 0"
proof -
  assume "us \<le> 0"
  then have "(of_int us :: rat) / 10 ^ 6 \<le> 0"
    by (simp add: divide_le_0_iff)
  then have "fl (of_int us / 10 ^ 6) \<le> fl 0" by (rule fl_mono)
  then show ?thesis by (simp add: total_seconds_def)
qed

lemma requests_per_second_absent:
  "start_time r = None \<or> end_time r = None \<or> total_requests r = 0 \<Longrightarrow>
     requests_per_second r = Inr 0"
  by (auto simp: requests_per_second_def split: option.splits)

lemma requests_per_second_nonpos:
  "start_time r = Some s \<Longrightarrow> end_time r = Some e \<Longrightarrow> e \<le> s \<Longrightarrow>
     requests_per_second r = Inr 0"
  using total_seconds_nonpos [of "e - s"]
  by (simp add: requests_per_second_def Let_def)

lemma requests_per_second_value:
  "start_time r = Some s \<Longrightarrow> end_time r = Some e \<Longrightarrow> s < e \<Longrightarrow> total_requests r \<noteq> 0 \<Longrightarrow>
     requests_per_second r =
       Inr (fl (float_of_int (total_requests r) / total_seconds (e - s)))"
  using total_seconds_pos [of "e - s"]
  by (simp add: requests_per_second_def Let_def float_truediv_def)

lemma requests_per_second_total: "\<exists>v. requests_per_second r = Inr v"
proof (cases "start_time r")
  case None
  then show ?thesis by (simp add: requests_per_second_absent)
next
  case s: (Some s)
  show ?thesis
  proof (cases "end_time r")
    case None
    then show ?thesis by (simp add: requests_per_second_absent)
  next
    case e: (Some e)
    show ?thesis
    proof (cases "total_requests r = 0 \<or> e \<le> s")
      case True
      then show ?thesis
        using requests_per_second_absent [of r] requests_per_second_nonpos [OF s e] by auto
    next
      case False
      then show ?thesis
        using requests_per_second_value [OF s e] by auto
    qed
  qed
qed

lemma success_rate_total: "\<exists>v. success_rate r = Inr v"
  using success_rate_value [of r] success_rate_zero [of r]
  by (cases "0 < total_requests r") auto

lemma avg_total: "\<exists>v. avg_response_time r = Inr v"
  using avg_value [of r] by (cases "response_times r = []") (auto simp: avg_response_time_def)

lemma min_total: "\<exists>v. min_response_time r = Inr v"
  by (cases "response_times r") (simp_all add: min_response_time_def py_min_def)

lemma max_total: "\<exists>v. max_response_time r = Inr v"
  by (cases "response_times r") (simp_all add: max_response_time_def py_max_def)

lemma p95_total: "\<exists>v. p95_response_time r = Inr v"
  using p95_value [of r] by (cases "response_times r = []") (auto simp: p95_response_time_def)

lemma p99_total: "\<exists>v. p99_response_time r = Inr v"
  using p99_value [of r] by (cases "response_times r = []") (auto simp: p99_response_time_def)

lemma to_dict_total: "\<exists>d. to_dict r = Inr d"
proof -
  obtain a mn mx p q sr rps where
    "avg_response_time r = Inr a" "min_response_time r = Inr mn"
    "max_response_time r = Inr mx" "p95_response_time r = Inr p"
    "p99_response_time r = Inr q" "success_rate r = Inr sr" "requests_per_second r = Inr rps"
    using avg_total min_total max_total p95_total p99_total success_rate_total
      requests_per_second_total by metis
  then show ?thesis
    by (simp add: to_dict_def py_bind_def)
qed

text \<open>
  Claim C5. The derived metrics are total, with 0 as the fallback: the average, minimum,
  maximum, p95 and p99 are 0 for an empty latency sequence; the throughput is
  \<open>total_requests\<close> divided by the seconds between start and end, and it is 0 when a
  timestamp is absent, when \<open>total_requests\<close> is 0 or when the span is not positive.
  No accessor raises, on these inputs or on any other, and neither does \<^verbatim>\<open>to_dict\<close>.
\<close>

theorem metrics_zero_fallbacks:
  "(response_times r = [] \<longrightarrow>
      avg_response_time r = Inr 0 \<and> min_response_time r = Inr 0 \<and>
      max_response_time r = Inr 0 \<and> p95_response_time r = Inr 0 \<and>
      p99_response_time r = Inr 0) \<and>
   (start_time r = None \<or> end_time r = None \<or> total_requests r = 0 \<longrightarrow>
      requests_per_second r = Inr 0) \<and>
   (start_time r = Some s \<and> end_time r = Some e \<and> e \<le> s \<longrightarrow>
      requests_per_second r = Inr 0) \<and>
   (start_time r = Some s \<and> end_time r = Some e \<and> s < e \<and> total_requests r \<noteq> 0 \<longrightarrow>
      0 < total_seconds (e - s) \<and>
      requests_per_second r =
        Inr (fl (float_of_int (total_requests r) / total_seconds (e - s)))) \<and>
   (total_requests r \<le> 0 \<longrightarrow> success_rate r = Inr 0) \<and>
   (\<exists>v. avg_response_time r = Inr v) \<and> (\<exists>v. min_response_time r = Inr v) \<and>
   (\<exists>v. max_response_time r = Inr v) \<and> (\<exists>v. p95_response_time r = Inr v) \<and>
   (\<exists>v. p99_response_time r = Inr v) \<and> (\<exists>v. success_rate r = Inr v) \<and>
   (\<exists>v. requests_per_second r = Inr v) \<and> (\<exists>d. to_dict r = Inr d)"
proof -
  have empty: "response_times r = [] \<longrightarrow>
      avg_response_time r = Inr 0 \<and> min_response_time r = Inr 0 \<and>
      max_response_time r = Inr 0 \<and> p95_response_time r = Inr 0 \<and>
      p99_response_time r = Inr 0"
    by (simp add: avg_response_time_def min_response_time_def max_response_time_def
          p95_response_time_def p99_response_time_def)
  have pos: "s < e \<longrightarrow> 0 < total_seconds (e - s)"
    by (simp add: total_seconds_pos)
  show ?thesis
    using empty pos requests_per_second_absent [of r] requests_per_second_nonpos [of r s e]
      requests_per_second_value [of r s e] success_rate_zero [of r]
      avg_total [of r] min_total [of r] max_total [of r] p95_total [of r] p99_total [of r]
      success_rate_total [of r] requests_per_second_total [of r] to_dict_total [of r]
    by blast
qed

theorem metrics_zero_fallbacks_witness:
  "avg_response_time new_LoadTestResult = Inr 0 \<and>
   p99_response_time new_LoadTestResult = Inr 0 \<and>
   requests_per_second new_LoadTestResult = Inr 0 \<and>
   requests_per_second
     (new_LoadTestResult\<lparr>total_requests := 3, start_time := Some 7000000,
        end_time := Some 7000000\<rparr>) = Inr 0 \<and>
   requests_per_second
     (new_LoadTestResult\<lparr>total_requests := 3, start_time := Some 5000000,
        end_time := Some 7000000\<rparr>) = Inr (3 / 2)"
proof -
  let ?r2 = "new_LoadTestResult\<lparr>total_requests := 3, start_time := Some 7000000,
        end_time := Some 7000000\<rparr>"
  let ?r3 = "new_LoadTestResult\<lparr>total_requests := 3, start_time := Some 5000000,
        end_time := Some 7000000\<rparr>"
  have v: "fl (float_of_int 3 / total_seconds 2000000) = 3 / 2"
    by code_simp
  have 1: "avg_response_time new_LoadTestResult = Inr 0"
    "p99_response_time new_LoadTestResult = Inr 0"
    "requests_per_second new_LoadTestResult = Inr 0"
    using metrics_zero_fallbacks [of new_LoadTestResult 0 0]
    by (simp_all add: new_LoadTestResult_def)
  have 2: "requests_per_second ?r2 = Inr 0"
    using metrics_zero_fallbacks [of ?r2 7000000 7000000]
    by (simp add: new_LoadTestResult_def)
  have "requests_per_second ?r3 =
      Inr (fl (float_of_int (total_requests ?r3) / total_seconds (7000000 - 5000000)))"
    using metrics_zero_fallbacks [of ?r3 5000000 7000000]
    by (simp add: new_LoadTestResult_def)
  then have 3: "requests_per_second ?r3 = Inr (3 / 2)"
    by (simp add: v)
  from 1 2 3 show ?thesis by simp
qed

subsection \<open>The test runner without users\<close>

lemma to_dict_no_requests:
  assumes "total_requests r = 0" "response_times r = []"
  shows "to_dict r =
    Inr \<lparr>snap_total_requests = 0, snap_successful_requests = successful_requests r,
         snap_failed_requests = failed_requests r,
         snap_avg_response_time = 0, snap_min_response_time = 0, snap_max_response_time = 0,
         snap_p95_response_time = 0, snap_p99_response_time = 0,
         snap_start_time = start_time r, snap_end_time = end_time r,
         snap_concurrent_users = concurrent_users r, snap_test_duration = test_duration r,
         snap_success_rate = 0, snap_requests_per_second = 0\<rparr>"
  using assms requests_per_second_absent [of r]
  by (simp add: to_dict_def py_bind_def avg_response_time_def min_response_time_def
        max_response_time_def p95_response_time_def p99_response_time_def success_rate_def)

text \<open>
  Claim C6. With \<open>users \<le> 0\<close> the test runner starts no virtual user and returns,
  without raising, the snapshot of a run with \<open>total_requests = 0\<close>,
  \<open>success_rate = 0\<close>, \<open>requests_per_second = 0\<close> and every other derived metric 0;
  the same snapshot is appended to the history.
\<close>

theorem run_load_test_no_users:
  assumes "users \<le> 0"
  shows "run_load_test (Some users) duration_field now_start now_end completed test_history =
    Inr (empty_snapshot users (case duration_field of None \<Rightarrow> 30 | Some d \<Rightarrow> d)
           now_start now_end,
         history_append test_history
           (empty_snapshot users (case duration_field of None \<Rightarrow> 30 | Some d \<Rightarrow> d)
              now_start now_end))"
  using assms
  by (simp add: run_load_test_def Let_def to_dict_no_requests new_LoadTestResult_def
        py_bind_def empty_snapshot_def)

theorem run_load_test_no_users_witness:
  "run_load_test (Some 0) (Some 10) 100 200 (\<lambda>i. Some (Response 200, 5)) [] =
     Inr (empty_snapshot 0 10 100 200, [empty_snapshot 0 10 100 200]) \<and>
   snap_total_requests (empty_snapshot 0 10 100 200) = 0 \<and>
   snap_success_rate (empty_snapshot 0 10 100 200) = 0 \<and>
   snap_requests_per_second (empty_snapshot 0 10 100 200) = 0"
  using run_load_test_no_users [of 0 "Some 10" 100 200 "\<lambda>i. Some (Response 200, 5)" "[]"]
  by (simp add: history_append_def deque_append_def history_maxlen_def empty_snapshot_def)

subsection \<open>Aggregate metrics\<close>

lemma mean_value:
  assumes "h \<noteq> []"
  shows "float_truediv (py_sum (map f h)) (float_of_int (int (length h))) =
    Inr (fl (py_sum (map f h) / float_of_int (int (length h))))"
  using float_of_int_length_nonzero [OF assms] by (simp add: float_truediv_def)

lemma mean_exact:
  assumes "length h < 2 ^ 53" "exact_sum 0 (map f h)"
  shows "fl (py_sum (map f h) / float_of_int (int (length h))) =
    fl (sum_list (map f h) / of_nat (length h))"
  by (simp only: py_sum_exact [OF assms(2)] float_of_nat_exact [OF assms(1)])

text \<open>
  Claim C8. For a non-empty history of \<open>n\<close> runs the aggregate report has
  \<open>total_tests = n\<close>, the unweighted means over the runs of success rate, average
  response time and throughput (the float sum divided by \<open>n\<close>, which is the exact mean
  rounded once when no addition rounds), and the plain sums of total, successful and
  failed requests. For the empty history the report is empty and nothing is divided.
\<close>

theorem aggregate_metrics:
  "get_performance_metrics [] = Inr None \<and>
   (h \<noteq> [] \<longrightarrow>
      (\<exists>m. get_performance_metrics h = Inr (Some m) \<and>
         m_total_tests m = int (length h) \<and>
         m_avg_success_rate m =
           fl (py_sum (map snap_success_rate h) / float_of_int (int (length h))) \<and>
         m_avg_response_time m =
           fl (py_sum (map snap_avg_response_time h) / float_of_int (int (length h))) \<and>
         m_avg_throughput m =
           fl (py_sum (map snap_requests_per_second h) / float_of_int (int (length h))) \<and>
         m_total_requests m = sum_list (map snap_total_requests h) \<and>
         m_total_successful m = sum_list (map snap_successful_requests h) \<and>
         m_total_failed m = sum_list (map snap_failed_requests h) \<and>
         (length h < 2 ^ 53 \<and> exact_sum 0 (map snap_success_rate h) \<longrightarrow>
            m_avg_success_rate m =
              fl (sum_list (map snap_success_rate h) / of_nat (length h))) \<and>
         (length h < 2 ^ 53 \<and> exact_sum 0 (map snap_avg_response_time h) \<longrightarrow>
            m_avg_response_time m =
              fl (sum_list (map snap_avg_response_time h) / of_nat (length h))) \<and>
         (length h < 2 ^ 53 \<and> exact_sum 0 (map snap_requests_per_second h) \<longrightarrow>
            m_avg_throughput m =
              fl (sum_list (map snap_requests_per_second h) / of_nat (length h)))))"
proof (intro conjI impI)
  show "get_performance_metrics [] = Inr None"
    by (simp add: get_performance_metrics_def)
next
  assume ne: "h \<noteq> []"
  let ?m = "\<lparr>m_total_tests = int (length h),
    m_avg_success_rate =
      fl (py_sum (map snap_success_rate h) / float_of_int (int (length h))),
    m_avg_response_time =
      fl (py_sum (map snap_avg_response_time h) / float_of_int (int (length h))),
    m_avg_throughput =
      fl (py_sum (map snap_requests_per_second h) / float_of_int (int (length h))),
    m_total_requests = sum_list (map snap_total_requests h),
    m_total_successful = sum_list (map snap_successful_requests h),
    m_total_failed = sum_list (map snap_failed_requests h)\<rparr>"
  have "get_performance_metrics h = Inr (Some ?m)"
    using ne by (simp add: get_performance_metrics_def mean_value py_bind_def)
  then show "\<exists>m. get_performance_metrics h = Inr (Some m) \<and>
         m_total_tests m = int (length h) \<and>
         m_avg_success_rate m =
           fl (py_sum (map snap_success_rate h) / float_of_int (int (length h))) \<and>
         m_avg_response_time m =
           fl (py_sum (map snap_avg_response_time h) / float_of_int (int (length h))) \<and>
         m_avg_throughput m =
           fl (py_sum (map snap_requests_per_second h) / float_of_int (int (length h))) \<and>
         m_total_requests m = sum_list (map snap_total_requests h) \<and>
         m_total_successful m = sum_list (map snap_successful_requests h) \<and>
         m_total_failed m = sum_list (map snap_failed_requests h) \<and>
         (length h < 2 ^ 53 \<and> exact_sum 0 (map snap_success_rate h) \<longrightarrow>
            m_avg_success_rate m =
              fl (sum_list (map snap_success_rate h) / of_nat (length h))) \<and>
         (length h < 2 ^ 53 \<and> exact_sum 0 (map snap_avg_response_time h) \<longrightarrow>
            m_avg_response_time m =
              fl (sum_list (map snap_avg_response_time h) / of_nat (length h))) \<and>
         (length h < 2 ^ 53 \<and> exact_sum 0 (map snap_requests_per_second h) \<longrightarrow>
            m_avg_throughput m =
              fl (sum_list (map snap_requests_per_second h) / of_nat (length h)))"
    by (intro exI [of _ ?m]) (simp add: mean_exact)
qed

theorem aggregate_metrics_witness:
  "get_performance_metrics
     [(empty_snapshot 5 1 0 1000000)\<lparr>snap_total_requests := 5, snap_successful_requests := 5,
         snap_avg_response_time := 40, snap_success_rate := 100,
         snap_requests_per_second := 5\<rparr>,
      (empty_snapshot 3 1 0 1000000)\<lparr>snap_total_requests := 3, snap_successful_requests := 1,
         snap_failed_requests := 2, snap_avg_response_time := 20, snap_success_rate := 50,
         snap_requests_per_second := 3\<rparr>] =
   Inr (Some \<lparr>m_total_tests = 2, m_avg_success_rate = 75, m_avg_response_time = 30,
              m_avg_throughput = 4, m_total_requests = 8, m_total_successful = 6,
              m_total_failed = 2\<rparr>)"
proof -
  let ?h = "[(empty_snapshot 5 1 0 1000000)\<lparr>snap_total_requests := 5,
         snap_successful_requests := 5,
         snap_avg_response_time := 40, snap_success_rate := 100,
         snap_requests_per_second := 5\<rparr>,
      (empty_snapshot 3 1 0 1000000)\<lparr>snap_total_requests := 3, snap_successful_requests := 1,
         snap_failed_requests := 2, snap_avg_response_time := 20, snap_success_rate := 50,
         snap_requests_per_second := 3\<rparr>]"
  have v: "fl (py_sum [100, 50] / float_of_int 2) = 75"
    "fl (py_sum [40, 20] / float_of_int 2) = 30"
    "fl (py_sum [5, 3] / float_of_int 2) = 4"
    by code_simp+
  from aggregate_metrics [of ?h] obtain m where
    m: "get_performance_metrics ?h = Inr (Some m)"
      "m_total_tests m = int (length ?h)"
      "m_avg_success_rate m =
         fl (py_sum (map snap_success_rate ?h) / float_of_int (int (length ?h)))"
      "m_avg_response_time m =
         fl (py_sum (map snap_avg_response_time ?h) / float_of_int (int (length ?h)))"
      "m_avg_throughput m =
         fl (py_sum (map snap_requests_per_second ?h) / float_of_int (int (length ?h)))"
      "m_total_requests m = sum_list (map snap_total_requests ?h)"
      "m_total_successful m = sum_list (map snap_successful_requests ?h)"
      "m_total_failed m = sum_list (map snap_failed_requests ?h)"
    by blast
  have "m = \<lparr>m_total_tests = 2, m_avg_success_rate = 75, m_avg_response_time = 30,
              m_avg_throughput = 4, m_total_requests = 8, m_total_successful = 6,
              m_total_failed = 2\<rparr>"
    using m(2-8) by (intro metrics.equality) (simp_all add: empty_snapshot_def v)
  with m(1) show ?thesis by simp
qed

end
